theory Spec2Isabelle
  imports Main
begin

section \<open>The displays panel of rviz: \<^verbatim>\<open>src/rviz/displays_panel.cpp\<close>\<close>

text \<open>
  The panel is a Qt widget whose slots run on the GUI thread, one at a time. Each slot is
  embedded as a function from the panel's state to its new state. Everything a slot asks
  of the user (the answer of a dialog) or of the file system is a parameter of the
  function. Every call a slot makes on a collaborator is appended to \<open>trace\<close>, oldest
  first, so that the order of the calls can be stated.
\<close>

subsection \<open>Display objects\<close>

text \<open>
  Modelled from the spec: \<^verbatim>\<open>rviz/config.h\<close> is not under src/. The spec describes a
  ConfigModel as the snapshot of one item's full configuration state. Here it records the
  topic the item consumes and the item's remaining parameter values.
\<close>

record config =
  cfg_topic :: "(string \<times> string) option"
  cfg_values :: "(string \<times> string) list"

definition Config :: config where
  "Config = \<lparr>cfg_topic = None, cfg_values = []\<rparr>"

text \<open>
  Modelled from the spec: \<^verbatim>\<open>rviz/display.h\<close> and \<^verbatim>\<open>rviz/display_group.h\<close> are not
  under src/. A Display item has a type identifier, a mutable name and its own
  configuration state; \<open>is_group\<close> is the runtime type that
  \<^verbatim>\<open>dynamic_cast<DisplayGroup*>\<close> inspects. \<open>connected\<close> says that the signal connections
  of the QObject are still in place, \<open>delete_later\<close> that a deferred deletion has been
  posted for it.
\<close>

record display =
  class_id :: string
  name :: string
  enabled :: bool
  is_group :: bool
  configuration :: config
  connected :: bool
  delete_later :: bool

text \<open>
  A row of the display tree model: the children of the root, in order. Some rows are
  plain properties and not displays (line 203 of the source: "the first few rows cannot
  be deleted (they aren't displays)"). A \<^verbatim>\<open>Display*\<close> is the index of the object in the
  store \<open>objects\<close>.
\<close>

datatype row = PropertyRow string | DisplayRow nat

datatype prompt = AddDisplayDialog | RenameDialog string | SaveFileDialog | OpenFileDialog

datatype event =
    StopUpdate
  | StartUpdate
  | Prompt prompt
  | CreateDisplay string string bool
  | SetTopic nat string string
  | Save nat
  | Load nat config
  | Select "nat option" "nat option"
  | Disconnect nat
  | DeleteLater nat
  | NotifyConfigChanged
  | ActivateWindow
  | SetName nat string
  | WriteFile config string
  | RosError string
  | CriticalBox string string
  | ReadFile string
  | LoadGroup config

record panel =
  objects :: "display list"
  rows :: "row list"
  selection :: "nat list"
  duplicate_button :: bool
  remove_button :: bool
  rename_button :: bool
  load_group_button :: bool
  save_group_button :: bool
  trace :: "event list"

definition emit :: "event \<Rightarrow> panel \<Rightarrow> panel" where
  "emit e s = s\<lparr>trace := trace s @ [e]\<rparr>"

text \<open>The calls a slot made: what it appended to the trace.\<close>

definition emitted :: "panel \<Rightarrow> panel \<Rightarrow> event list" where
  "emitted s s' = drop (length (trace s)) (trace s')"

text \<open>
  The constructor (lines 64 to 120) disables Duplicate, Remove, Rename and Save Group and
  enables Load Group; \<open>onInitialize\<close> attaches the display tree model of the host.
\<close>

definition DisplaysPanel :: "display list \<Rightarrow> row list \<Rightarrow> panel" where
  "DisplaysPanel objs rws =
     \<lparr>objects = objs, rows = rws, selection = [],
      duplicate_button = False, remove_button = False, rename_button = False,
      load_group_button = True, save_group_button = False, trace = []\<rparr>"

subsection \<open>The collaborators\<close>

text \<open>
  Modelled from the spec: \<^verbatim>\<open>rviz/properties/property_tree_widget.h\<close> is not under src/.
  The spec's selection surface exposes the currently selected Display items as an ordered
  list. \<open>getSelectedObjects\<close> walks the selected rows in the order the selection model
  reports them and keeps the rows that are live Display objects, so the list holds no
  null pointer.
\<close>

definition row_display :: "panel \<Rightarrow> nat \<Rightarrow> nat option" where
  "row_display s i =
     (if i < length (rows s) then
        (case rows s ! i of
           PropertyRow _ \<Rightarrow> None
         | DisplayRow p \<Rightarrow> if p < length (objects s) then Some p else None)
      else None)"

definition getSelectedObjects :: "panel \<Rightarrow> nat list" where
  "getSelectedObjects s = List.map_filter (row_display s) (selection s)"

text \<open>
  Modelled from the spec: \<^verbatim>\<open>rviz/properties/property_tree_model.h\<close> is not under
  src/. The registry is an ordered sequence of items; \<^verbatim>\<open>indexOf\<close> gives the row in
  which a display sits, and an invalid index (\<open>None\<close>) when the display is in no row.
\<close>

definition indexOf :: "panel \<Rightarrow> nat \<Rightarrow> nat option" where
  "indexOf s p =
     (if DisplayRow p \<in> set (rows s)
      then Some (length (takeWhile (\<lambda>r. r \<noteq> DisplayRow p) (rows s)))
      else None)"

text \<open>
  Qt's \<^verbatim>\<open>first.sibling(first.row() - 1, first.column())\<close>: the index one row above;
  invalid when \<open>first\<close> is invalid or is row 0 (row \<open>-1\<close> does not exist).
\<close>

definition sibling_above :: "nat option \<Rightarrow> nat option" where
  "sibling_above first =
     (case first of None \<Rightarrow> None | Some r \<Rightarrow> if r = 0 then None else Some (r - 1))"

text \<open>
  Qt's \<^verbatim>\<open>QItemSelection(first, last)\<close>: the rows from the first index to the last;
  nothing when an end is invalid or the last index is above the first.
\<close>

definition select_range :: "nat option \<Rightarrow> nat option \<Rightarrow> nat list" where
  "select_range first_index last_index =
     (case first_index of
        None \<Rightarrow> []
      | Some a \<Rightarrow> (case last_index of None \<Rightarrow> [] | Some b \<Rightarrow> [a ..< Suc b]))"

text \<open>Lines 219 to 231.\<close>

definition onSelectionChanged :: "panel \<Rightarrow> panel" where
  "onSelectionChanged s =
     (let displays = getSelectedObjects s;
          num_displays_selected = length displays;
          is_group_sel = (num_displays_selected = 1 \<and>
                          is_group (objects s ! (getSelectedObjects s ! 0)))
      in s\<lparr>duplicate_button := (num_displays_selected > 0),
            remove_button := (num_displays_selected > 0),
            rename_button := (num_displays_selected = 1),
            save_group_button := is_group_sel\<rparr>)"

text \<open>
  Modelled from the spec: the selection surface emits a notification whenever the
  selection changes. \<^verbatim>\<open>selectionModel()->select(selection, ClearAndSelect)\<close> replaces
  the selection by the range; line 119 connects the notification to
  \<open>onSelectionChanged\<close>, which therefore runs inside the call when the selection differs
  from the one before.
\<close>

definition select :: "nat option \<Rightarrow> nat option \<Rightarrow> panel \<Rightarrow> panel" where
  "select first_index last_index s =
     (let s1 = emit (Select first_index last_index)
                 (s\<lparr>selection := select_range first_index last_index\<rparr>)
      in if selection s1 = selection s then s1 else onSelectionChanged s1)"

text \<open>
  Modelled from the spec: \<^verbatim>\<open>rviz/display_factory.h\<close> is not under src/. One type
  identifier makes a Group; the factory's class table decides which. The model fixes the
  identifier below, and nothing proved here depends on its spelling.
\<close>

definition group_class_id :: string where
  "group_class_id = ''rviz/Group''"

definition DisplayFactory_make :: "string \<Rightarrow> display" where
  "DisplayFactory_make lookup_name =
     \<lparr>class_id = lookup_name, name = [], enabled = False,
      is_group = (lookup_name = group_class_id),
      configuration = Config, connected = True, delete_later = False\<rparr>"

text \<open>
  Modelled from the spec: \<^verbatim>\<open>rviz/visualization_manager.h\<close> is not under src/. The host's
  \<^verbatim>\<open>createDisplay(type_id, name, enabled)\<close> makes the item through the factory and appends
  it to the registry; \<^verbatim>\<open>stopUpdate\<close> and \<^verbatim>\<open>startUpdate\<close> pause and resume the update loop;
  \<^verbatim>\<open>notifyConfigChanged\<close> tells the listeners; \<^verbatim>\<open>loadGroup\<close> materialises a configuration
  as a new group at the top level.
\<close>

definition addDisplay :: "display \<Rightarrow> panel \<Rightarrow> nat \<times> panel" where
  "addDisplay d s =
     (length (objects s),
      s\<lparr>objects := objects s @ [d], rows := rows s @ [DisplayRow (length (objects s))]\<rparr>)"

definition createDisplay :: "string \<Rightarrow> string \<Rightarrow> bool \<Rightarrow> panel \<Rightarrow> nat \<times> panel" where
  "createDisplay class_lookup_name nm en s =
     addDisplay ((DisplayFactory_make class_lookup_name)\<lparr>name := nm, enabled := en\<rparr>)
       (emit (CreateDisplay class_lookup_name nm en) s)"

definition stopUpdate :: "panel \<Rightarrow> panel" where
  "stopUpdate s = emit StopUpdate s"

definition startUpdate :: "panel \<Rightarrow> panel" where
  "startUpdate s = emit StartUpdate s"

definition notifyConfigChanged :: "panel \<Rightarrow> panel" where
  "notifyConfigChanged s = emit NotifyConfigChanged s"

definition activateWindow :: "panel \<Rightarrow> panel" where
  "activateWindow s = emit ActivateWindow s"

definition loadGroup :: "config \<Rightarrow> panel \<Rightarrow> panel" where
  "loadGroup cfg s =
     snd (addDisplay ((DisplayFactory_make group_class_id)\<lparr>configuration := cfg\<rparr>)
            (emit (LoadGroup cfg) s))"

text \<open>
  Modelled from the spec: the methods of \<^verbatim>\<open>Display\<close> (and of \<^verbatim>\<open>QObject\<close>) that the panel
  calls. \<^verbatim>\<open>save\<close> and \<^verbatim>\<open>load\<close> are the value-preserving round trip of the item's
  configuration; \<^verbatim>\<open>setTopic\<close> configures the item to consume a topic;
  \<^verbatim>\<open>disconnect()\<close> drops the signal connections of the object; \<^verbatim>\<open>deleteLater()\<close> posts
  the deletion to the event loop and returns, the object stays alive until the event loop
  runs again.
\<close>

definition update_object :: "nat \<Rightarrow> (display \<Rightarrow> display) \<Rightarrow> panel \<Rightarrow> panel" where
  "update_object p f s = s\<lparr>objects := (objects s)[p := f (objects s ! p)]\<rparr>"

definition Display_getClassId :: "panel \<Rightarrow> nat \<Rightarrow> string" where
  "Display_getClassId s p = class_id (objects s ! p)"

definition Display_getName :: "panel \<Rightarrow> nat \<Rightarrow> string" where
  "Display_getName s p = name (objects s ! p)"

definition Display_setName :: "nat \<Rightarrow> string \<Rightarrow> panel \<Rightarrow> panel" where
  "Display_setName p nm s = update_object p (\<lambda>d. d\<lparr>name := nm\<rparr>) (emit (SetName p nm) s)"

definition Display_setTopic :: "nat \<Rightarrow> string \<Rightarrow> string \<Rightarrow> panel \<Rightarrow> panel" where
  "Display_setTopic p topic dtype s =
     update_object p
       (\<lambda>d. d\<lparr>configuration := (configuration d)\<lparr>cfg_topic := Some (topic, dtype)\<rparr>\<rparr>)
       (emit (SetTopic p topic dtype) s)"

definition Display_save :: "nat \<Rightarrow> panel \<Rightarrow> config \<times> panel" where
  "Display_save p s = (configuration (objects s ! p), emit (Save p) s)"

definition Display_load :: "nat \<Rightarrow> config \<Rightarrow> panel \<Rightarrow> panel" where
  "Display_load p cfg s = update_object p (\<lambda>d. d\<lparr>configuration := cfg\<rparr>) (emit (Load p cfg) s)"

definition Display_disconnect :: "nat \<Rightarrow> panel \<Rightarrow> panel" where
  "Display_disconnect p s = update_object p (\<lambda>d. d\<lparr>connected := False\<rparr>) (emit (Disconnect p) s)"

definition Display_deleteLater :: "nat \<Rightarrow> panel \<Rightarrow> panel" where
  "Display_deleteLater p s =
     update_object p (\<lambda>d. d\<lparr>delete_later := True\<rparr>) (emit (DeleteLater p) s)"

text \<open>
  \<^verbatim>\<open>boost::filesystem::path::extension()\<close>: the part of the last path element from its
  last dot on, empty when the element has no dot or is \<^verbatim>\<open>.\<close> or \<^verbatim>\<open>..\<close>.
\<close>

definition path_filename :: "string \<Rightarrow> string" where
  "path_filename p = rev (takeWhile (\<lambda>c. c \<noteq> CHR ''/'') (rev p))"

definition path_extension :: "string \<Rightarrow> string" where
  "path_extension p =
     (let f = path_filename p
      in if f = ''.'' \<or> f = ''..'' \<or> CHR ''.'' \<notin> set f then []
         else CHR ''.'' # rev (takeWhile (\<lambda>c. c \<noteq> CHR ''.'') (rev f)))"

definition CONFIG_EXTENSION :: string where
  "CONFIG_EXTENSION = ''rviz''"

subsection \<open>The slots\<close>

text \<open>
  The answer of the \<^verbatim>\<open>AddDisplayDialog\<close>: whether it was accepted, and the four strings
  it writes through its out-parameters.
\<close>

record add_dialog =
  accepted :: bool
  dlg_lookup_name :: string
  dlg_display_name :: string
  dlg_topic :: string
  dlg_datatype :: string

text \<open>
  Lines 131 to 162. The wait cursor around the construction of the dialog and the
  \<^verbatim>\<open>delete dialog\<close> at the end touch nothing the panel keeps and are left out.
\<close>

definition onNewDisplay :: "add_dialog \<Rightarrow> panel \<Rightarrow> panel" where
  "onNewDisplay dialog s =
     (let s1 = stopUpdate s;
          s2 = emit (Prompt AddDisplayDialog) s1;
          s3 = (if accepted dialog then
                  (let (disp, s') = createDisplay (dlg_lookup_name dialog)
                                      (dlg_display_name dialog) True s2
                   in if dlg_topic dialog \<noteq> [] \<and> dlg_datatype dialog \<noteq> []
                      then Display_setTopic disp (dlg_topic dialog) (dlg_datatype dialog) s'
                      else s')
                else s2);
          s4 = startUpdate s3
      in activateWindow s4)"

text \<open>Lines 170 to 181: the loop over \<open>displays_to_duplicate\<close>.\<close>

fun duplicate_loop :: "nat list \<Rightarrow> nat list \<Rightarrow> panel \<Rightarrow> nat list \<times> panel" where
  "duplicate_loop [] duplicated_displays s = (duplicated_displays, s)"
| "duplicate_loop (src # rest) duplicated_displays s =
     (let lookup_name = Display_getClassId s src;
          display_name = Display_getName s src;
          (disp, s1) = createDisplay lookup_name display_name True s;
          (cfg, s2) = Display_save src s1;
          s3 = Display_load disp cfg s2
      in duplicate_loop rest (duplicated_displays @ [disp]) s3)"

text \<open>Lines 164 to 191.\<close>

definition onDuplicateDisplay :: "panel \<Rightarrow> panel" where
  "onDuplicateDisplay s =
     (let displays_to_duplicate = getSelectedObjects s;
          (duplicated_displays, s1) = duplicate_loop displays_to_duplicate [] s;
          s2 = (if length duplicated_displays > 0 then
                  (let first_index = indexOf s1 (hd duplicated_displays);
                       last_index = indexOf s1 (last duplicated_displays)
                   in select first_index last_index s1)
                else s1);
          s3 = startUpdate s2
      in activateWindow s3)"

text \<open>
  Lines 199 to 211: the loop over \<open>displays_to_delete\<close>; \<open>i\<close> is the loop counter and
  \<open>new_selected\<close> the index computed in the first round.
\<close>

fun delete_loop :: "nat list \<Rightarrow> nat \<Rightarrow> nat option \<Rightarrow> panel \<Rightarrow> nat option \<times> panel" where
  "delete_loop [] i new_selected s = (new_selected, s)"
| "delete_loop (d # rest) i new_selected s =
     (let new_selected' = (if i = 0 then sibling_above (indexOf s d) else new_selected);
          s1 = Display_disconnect d s;
          s2 = Display_deleteLater d s1
      in delete_loop rest (Suc i) new_selected' s2)"

text \<open>Lines 193 to 217.\<close>

definition onDeleteDisplay :: "panel \<Rightarrow> panel" where
  "onDeleteDisplay s =
     (let displays_to_delete = getSelectedObjects s;
          (new_selected, s1) = delete_loop displays_to_delete 0 None s;
          s2 = select new_selected new_selected s1
      in notifyConfigChanged s2)"

text \<open>
  Lines 233 to 256; \<open>new_name\<close> is what \<^verbatim>\<open>QInputDialog::getText\<close> returns (the empty
  string when the user cancels). The test of line 242 never fires: \<open>getSelectedObjects\<close>
  holds no null pointer.
\<close>

definition onRenameDisplay :: "string \<Rightarrow> panel \<Rightarrow> panel" where
  "onRenameDisplay new_name s =
     (let displays = getSelectedObjects s
      in if length displays = 0 then s
         else
           (let display_to_rename = displays ! 0;
                old_name = Display_getName s display_to_rename;
                s1 = emit (Prompt (RenameDialog old_name)) s
            in if new_name = [] \<or> new_name = old_name then s1
               else Display_setName display_to_rename new_name s1))"

text \<open>
  Lines 258 to 308; \<open>save_filename\<close> is what \<^verbatim>\<open>QFileDialog::getSaveFileName\<close> returns
  (empty when the user cancels), and \<open>writer cfg file\<close> is the error message of
  \<^verbatim>\<open>YamlConfigWriter::writeFile\<close>, \<open>None\<close> when the writer reports no error. The
  test of line 266 never fires: \<open>getSelectedObjects\<close> holds no null pointer.
\<close>

definition onSaveGroupDisplay ::
  "(config \<Rightarrow> string \<Rightarrow> string option) \<Rightarrow> string \<Rightarrow> panel \<Rightarrow> panel" where
  "onSaveGroupDisplay writer save_filename s =
     (let displays = getSelectedObjects s
      in if length displays \<noteq> 1 then s
         else
           (let display_to_save = displays ! 0;
                s1 = stopUpdate s;
                s2 = emit (Prompt SaveFileDialog) s1;
                s3 = startUpdate s2
            in if save_filename = [] then s3
               else
                 (let filename =
                        (if path_extension save_filename \<noteq> ''.'' @ CONFIG_EXTENSION
                         then save_filename @ ''.'' @ CONFIG_EXTENSION
                         else save_filename);
                      (cfg, s4) = Display_save display_to_save s3;
                      s5 = emit (WriteFile cfg filename) s4
                  in case writer cfg filename of
                       Some error_message \<Rightarrow>
                         emit (CriticalBox ''Failed to save.'' error_message)
                           (emit (RosError error_message) s5)
                     | None \<Rightarrow> s5)))"

text \<open>
  Lines 310 to 336; \<open>filename\<close> is what \<^verbatim>\<open>QFileDialog::getOpenFileName\<close> returns,
  \<open>exists\<close> is \<^verbatim>\<open>boost::filesystem::exists\<close>, and \<open>reader file\<close> is the configuration
  \<^verbatim>\<open>YamlConfigReader::readFile\<close> produces, \<open>None\<close> when the reader reports an error.
\<close>

definition onLoadGroupDisplay ::
  "(string \<Rightarrow> bool) \<Rightarrow> (string \<Rightarrow> config option) \<Rightarrow> string \<Rightarrow> panel \<Rightarrow> panel" where
  "onLoadGroupDisplay exists reader filename s =
     (let s1 = stopUpdate s;
          s2 = emit (Prompt OpenFileDialog) s1;
          s3 = startUpdate s2
      in if filename = [] then s3
         else if \<not> exists filename then
           emit (CriticalBox ''Config file does not exist'' (filename @ '' does not exist!'')) s3
         else
           (let s4 = emit (ReadFile filename) s3
            in case reader filename of
                 None \<Rightarrow> s4
               | Some cfg \<Rightarrow> loadGroup cfg s4))"

subsection \<open>Derived notions used in the statements\<close>

text \<open>
  The update loop is paused by \<open>StopUpdate\<close> and resumed by \<open>StartUpdate\<close>. A list of
  calls is balanced when every resume has a pause before it that no earlier resume has
  used up, and no pause is left open at the end.
\<close>

fun balanced_from :: "nat \<Rightarrow> event list \<Rightarrow> bool" where
  "balanced_from paused [] = (paused = 0)"
| "balanced_from paused (StopUpdate # es) = balanced_from (Suc paused) es"
| "balanced_from paused (StartUpdate # es) = (paused > 0 \<and> balanced_from (paused - 1) es)"
| "balanced_from paused (_ # es) = balanced_from paused es"

definition balanced :: "event list \<Rightarrow> bool" where
  "balanced es = balanced_from 0 es"

text \<open>
  The item that \<open>createDisplay\<close>, \<open>save\<close> and \<open>load\<close> make of a source item in one
  round of the duplicate loop, and the calls of that round.
\<close>

definition duplicate_of :: "display \<Rightarrow> display" where
  "duplicate_of d =
     (DisplayFactory_make (class_id d))
       \<lparr>name := name d, enabled := True, configuration := configuration d\<rparr>"

definition duplicate_events :: "display list \<Rightarrow> nat \<times> nat \<Rightarrow> event list" where
  "duplicate_events objs =
     (\<lambda>(new, src). [CreateDisplay (class_id (objs ! src)) (name (objs ! src)) True,
                     Save src, Load new (configuration (objs ! src))])"

text \<open>What one round of the delete loop does to an item, and the calls of that round.\<close>

definition mark_deleted :: "display \<Rightarrow> display" where
  "mark_deleted d = d\<lparr>connected := False, delete_later := True\<rparr>"

definition delete_events :: "nat \<Rightarrow> event list" where
  "delete_events d = [Disconnect d, DeleteLater d]"

text \<open>
  Well-formed panels: every display row points to a live object, and the selection
  holds rows of the tree.
\<close>

definition rows_valid :: "panel \<Rightarrow> bool" where
  "rows_valid s =
     list_all (\<lambda>r. case r of PropertyRow _ \<Rightarrow> True | DisplayRow p \<Rightarrow> p < length (objects s))
       (rows s)"

definition selection_valid :: "panel \<Rightarrow> bool" where
  "selection_valid s = list_all (\<lambda>i. i < length (rows s)) (selection s)"

text \<open>The four affordance flags agree with the current selection (section 4.5 of the spec).\<close>

definition affordances_ok :: "panel \<Rightarrow> bool" where
  "affordances_ok s =
     ((duplicate_button s = (getSelectedObjects s \<noteq> [])) \<and>
      (remove_button s = (getSelectedObjects s \<noteq> [])) \<and>
      (rename_button s = (length (getSelectedObjects s) = 1)) \<and>
      (save_group_button s =
         (length (getSelectedObjects s) = 1 \<and> is_group (objects s ! hd (getSelectedObjects s)))))"

text \<open>The new selection points at none of the items handed to delete.\<close>

definition avoids_deleted :: "panel \<Rightarrow> panel \<Rightarrow> bool" where
  "avoids_deleted s s' =
     list_all (\<lambda>i. case row_display s' i of None \<Rightarrow> True
                    | Some p \<Rightarrow> p \<notin> set (getSelectedObjects s))
       (selection s')"

text \<open>
  The index delete selects: the row above the first item of the list handed to delete,
  invalid when the list is empty (\<open>new_selected\<close> keeps its default) or that item is in
  row 0.
\<close>

definition row_above_first :: "panel \<Rightarrow> nat option" where
  "row_above_first s =
     (case getSelectedObjects s of [] \<Rightarrow> None | d # _ \<Rightarrow> sibling_above (indexOf s d))"

text \<open>The state the duplicate loop leaves: one copy appended per selected item.\<close>

definition duplicates_added :: "panel \<Rightarrow> panel" where
  "duplicates_added s =
     s\<lparr>objects := objects s @ map (\<lambda>src. duplicate_of (objects s ! src)) (getSelectedObjects s),
       rows := rows s @ map DisplayRow
                 [length (objects s) ..< length (objects s) + length (getSelectedObjects s)],
       trace := trace s @ concat (map (duplicate_events (objects s))
                 (zip [length (objects s) ..< length (objects s) + length (getSelectedObjects s)]
                      (getSelectedObjects s)))\<rparr>"

subsection \<open>Example panels\<close>

text \<open>
  A panel over the two structural rows of the tree and three displays, the last one a
  group; \<open>user_selects\<close> is the user clicking rows in the given order, after which the
  selection surface notifies the panel.
\<close>

definition three_displays :: panel where
  "three_displays =
     DisplaysPanel
       [(DisplayFactory_make ''rviz/Grid'')\<lparr>name := ''Grid'', enabled := True\<rparr>,
        (DisplayFactory_make ''rviz/Camera'')\<lparr>name := ''Camera'', enabled := True\<rparr>,
        (DisplayFactory_make ''rviz/Group'')\<lparr>name := ''Group'', enabled := True\<rparr>]
       [PropertyRow ''Global Options'', PropertyRow ''Global Status'',
        DisplayRow 0, DisplayRow 1, DisplayRow 2]"

definition user_selects :: "nat list \<Rightarrow> panel \<Rightarrow> panel" where
  "user_selects sel s = onSelectionChanged (s\<lparr>selection := sel\<rparr>)"

definition add_accepted :: add_dialog where
  "add_accepted =
     \<lparr>accepted = True, dlg_lookup_name = ''rviz/Image'', dlg_display_name = ''Image'',
      dlg_topic = ''/camera/image'', dlg_datatype = ''sensor_msgs/Image''\<rparr>"

definition add_cancelled :: add_dialog where
  "add_cancelled =
     \<lparr>accepted = False, dlg_lookup_name = [], dlg_display_name = [],
      dlg_topic = [], dlg_datatype = []\<rparr>"

text \<open>
  A file system with one readable group file and one file the reader rejects, and a
  writer that fails on one path.
\<close>

definition saved_group :: config where
  "saved_group = \<lparr>cfg_topic = None, cfg_values = [(''Displays'', ''Grid, Camera'')]\<rparr>"

definition example_exists :: "string \<Rightarrow> bool" where
  "example_exists f = (f = ''/tmp/group.rviz'' \<or> f = ''/tmp/broken.rviz'')"

definition example_reader :: "string \<Rightarrow> config option" where
  "example_reader f = (if f = ''/tmp/group.rviz'' then Some saved_group else None)"

definition example_writer :: "config \<Rightarrow> string \<Rightarrow> string option" where
  "example_writer cfg f =
     (if f = ''/readonly/grid.rviz'' then Some ''Failed to open file for writing'' else None)"

section \<open>Properties\<close>

subsection \<open>Auxiliary facts\<close>

lemmas prim_defs = emit_def update_object_def addDisplay_def createDisplay_def stopUpdate_def
  startUpdate_def notifyConfigChanged_def activateWindow_def loadGroup_def
  Display_getClassId_def Display_getName_def Display_setName_def Display_setTopic_def
  Display_save_def Display_load_def Display_disconnect_def Display_deleteLater_def

lemmas example_defs = three_displays_def DisplaysPanel_def user_selects_def
  DisplayFactory_make_def Config_def group_class_id_def add_accepted_def add_cancelled_def
  saved_group_def example_exists_def example_reader_def example_writer_def

lemma map_filter_mem:
  "y \<in> set (List.map_filter f xs) \<longleftrightarrow> (\<exists>x \<in> set xs. f x = Some y)"
  by (induction xs) (auto split: option.splits)

lemma map_filter_same:
  "(\<And>x. x \<in> set xs \<Longrightarrow> f x = g x) \<Longrightarrow> List.map_filter f xs = List.map_filter g xs"
  by (induction xs) (auto split: option.splits)

lemma row_display_Some:
  "row_display s i = Some p \<longleftrightarrow>
     i < length (rows s) \<and> rows s ! i = DisplayRow p \<and> p < length (objects s)"
  by (auto simp add: row_display_def split: row.splits)

lemma row_display_cong:
  "objects s' = objects s \<Longrightarrow> rows s' = rows s \<Longrightarrow> row_display s' = row_display s"
  by (rule ext) (simp add: row_display_def split: row.splits)

lemma getSelectedObjects_live:
  "d \<in> set (getSelectedObjects s) \<Longrightarrow>
   d < length (objects s) \<and>
   (\<exists>i \<in> set (selection s). i < length (rows s) \<and> rows s ! i = DisplayRow d)"
proof -
  assume "d \<in> set (getSelectedObjects s)"
  then obtain i where "i \<in> set (selection s)" "row_display s i = Some d"
    by (auto simp: getSelectedObjects_def map_filter_mem)
  then show ?thesis
    using row_display_Some [of s i d] by blast
qed

lemma getSelectedObjects_cong:
  "objects s' = objects s \<Longrightarrow> rows s' = rows s \<Longrightarrow> selection s' = selection s \<Longrightarrow>
   getSelectedObjects s' = getSelectedObjects s"
  using row_display_cong [of s' s] by (simp add: getSelectedObjects_def)

lemma emit_frame [simp]:
  "objects (emit e s) = objects s" "rows (emit e s) = rows s"
  "selection (emit e s) = selection s" "trace (emit e s) = trace s @ [e]"
  by (simp_all add: emit_def)

text \<open>The duplicate loop, as one update of the state.\<close>

lemma duplicate_loop_state:
  "\<forall>src \<in> set srcs. src < length (objects s) \<Longrightarrow>
   duplicate_loop srcs dup s =
     (dup @ [length (objects s) ..< length (objects s) + length srcs],
      s\<lparr>objects := objects s @ map (\<lambda>src. duplicate_of (objects s ! src)) srcs,
        rows := rows s @ map DisplayRow [length (objects s) ..< length (objects s) + length srcs],
        trace := trace s @ concat (map (duplicate_events (objects s))
                   (zip [length (objects s) ..< length (objects s) + length srcs] srcs))\<rparr>)"
proof (induction srcs arbitrary: dup s)
  case Nil
  then show ?case by simp
next
  case (Cons src rest)
  let ?n = "length (objects s)"
  let ?s3 = "s\<lparr>objects := objects s @ [duplicate_of (objects s ! src)],
               rows := rows s @ [DisplayRow ?n],
               trace := trace s @ duplicate_events (objects s) (?n, src)\<rparr>"
  have src: "src < ?n" and rest: "\<forall>r \<in> set rest. r < ?n"
    using Cons.prems by auto
  have step: "duplicate_loop (src # rest) dup s = duplicate_loop rest (dup @ [?n]) ?s3"
    using src
    by (cases s)
       (simp add: prim_defs Let_def duplicate_of_def duplicate_events_def nth_append
          DisplayFactory_make_def)
  have rest3: "\<forall>r \<in> set rest. r < length (objects ?s3)"
    using rest by auto
  have same: "map (\<lambda>r. duplicate_of (objects ?s3 ! r)) rest =
              map (\<lambda>r. duplicate_of (objects s ! r)) rest"
    using rest by (simp add: nth_append)
  have ev: "map (duplicate_events (objects ?s3)) (zip [Suc ?n ..< Suc ?n + length rest] rest) =
            map (duplicate_events (objects s)) (zip [Suc ?n ..< Suc ?n + length rest] rest)"
    using rest
    by (auto simp del: upt_Suc simp: duplicate_events_def nth_append dest!: set_zip_rightD)
  have upt: "[?n ..< ?n + length (src # rest)] = ?n # [Suc ?n ..< Suc ?n + length rest]"
    using upt_conv_Cons [of ?n "?n + Suc (length rest)"] by (simp del: upt_Suc)
  show ?case
    unfolding step Cons.IH [OF rest3] upt
    using same ev by (cases s) (simp del: upt_Suc map_eq_conv)
qed

text \<open>The delete loop, as one update of the state.\<close>

lemma delete_step:
  "Display_deleteLater d (Display_disconnect d s) =
     s\<lparr>objects := (objects s)[d := mark_deleted (objects s ! d)],
       trace := trace s @ delete_events d\<rparr>"
  by (cases s; cases "d < length (objects s)")
     (simp_all add: prim_defs mark_deleted_def delete_events_def list_update_beyond)

lemma delete_loop_state:
  "delete_loop ds i ns s =
     (if ds = [] \<or> i \<noteq> 0 then ns else sibling_above (indexOf s (hd ds)),
      s\<lparr>objects := fold (\<lambda>d os. os[d := mark_deleted (os ! d)]) ds (objects s),
        trace := trace s @ concat (map delete_events ds)\<rparr>)"
proof (induction ds arbitrary: i ns s)
  case Nil
  then show ?case by simp
next
  case (Cons d rest)
  show ?case
    by (cases s) (simp add: Let_def delete_step Cons.IH)
qed

lemma fold_mark_length:
  "length (fold (\<lambda>d os. os[d := f (os ! d)]) ds os) = length os"
  by (induction ds arbitrary: os) auto

lemma fold_mark_nth:
  "q < length os \<Longrightarrow>
   fold (\<lambda>d os. os[d := mark_deleted (os ! d)]) ds os ! q =
     (if q \<in> set ds then mark_deleted (os ! q) else os ! q)"
proof (induction ds arbitrary: os)
  case Nil
  then show ?case by simp
next
  case (Cons d rest)
  then show ?case
    by (cases "d = q") (auto simp: mark_deleted_def)
qed

lemma delete_events_order:
  "concat (map delete_events ds) @ tl_evs = pre @ DeleteLater d # post \<Longrightarrow>
   DeleteLater d \<notin> set tl_evs \<Longrightarrow> Disconnect d \<in> set pre"
proof (induction ds arbitrary: pre)
  case Nil
  then show ?case
    by (metis append_Nil concat.simps(1) in_set_conv_decomp list.simps(8))
next
  case (Cons d0 rest)
  from Cons.prems(1) have eq:
    "Disconnect d0 # DeleteLater d0 # (concat (map delete_events rest) @ tl_evs) =
     pre @ DeleteLater d # post"
    by (simp add: delete_events_def [of d0])
  show ?case
  proof (cases pre)
    case Nil
    with eq show ?thesis by simp
  next
    case (Cons e pre1)
    note c1 = this
    with eq have e: "e = Disconnect d0"
      and eq1: "DeleteLater d0 # (concat (map delete_events rest) @ tl_evs) =
                pre1 @ DeleteLater d # post"
      by simp_all
    show ?thesis
    proof (cases pre1)
      case Nil
      with eq1 have "d = d0" by simp
      with c1 e show ?thesis by simp
    next
      case (Cons e2 pre2)
      with eq1 have "concat (map delete_events rest) @ tl_evs = pre2 @ DeleteLater d # post"
        by simp
      from Cons.IH [OF this Cons.prems(2)] c1 Cons show ?thesis by simp
    qed
  qed
qed

lemma delete_events_present:
  "d \<in> set ds \<Longrightarrow>
   \<exists>pre post. concat (map delete_events ds) @ tl_evs =
               pre @ Disconnect d # DeleteLater d # post"
proof -
  assume "d \<in> set ds"
  then obtain xs ys where "ds = xs @ d # ys"
    by (meson split_list)
  then have "concat (map delete_events ds) @ tl_evs =
      concat (map delete_events xs) @
      Disconnect d # DeleteLater d # (concat (map delete_events ys) @ tl_evs)"
    by (simp add: delete_events_def [of d])
  then show ?thesis by blast
qed

lemma onSelectionChanged_frame [simp]:
  "objects (onSelectionChanged s) = objects s" "rows (onSelectionChanged s) = rows s"
  "selection (onSelectionChanged s) = selection s" "trace (onSelectionChanged s) = trace s"
  by (simp_all add: onSelectionChanged_def Let_def)

lemma select_frame [simp]:
  "objects (select a b s) = objects s" "rows (select a b s) = rows s"
  "selection (select a b s) = select_range a b" "trace (select a b s) = trace s @ [Select a b]"
  by (simp_all add: select_def Let_def)

lemma onDeleteDisplay_unfold:
  "onDeleteDisplay s =
     notifyConfigChanged
       (select (row_above_first s) (row_above_first s)
          (s\<lparr>objects := fold (\<lambda>d os. os[d := mark_deleted (os ! d)]) (getSelectedObjects s) (objects s),
             trace := trace s @ concat (map delete_events (getSelectedObjects s))\<rparr>))"
  by (cases "getSelectedObjects s")
     (simp_all add: onDeleteDisplay_def delete_loop_state row_above_first_def Let_def)

lemma onDeleteDisplay_fields:
  "objects (onDeleteDisplay s) =
     fold (\<lambda>d os. os[d := mark_deleted (os ! d)]) (getSelectedObjects s) (objects s)"
  "rows (onDeleteDisplay s) = rows s"
  "selection (onDeleteDisplay s) = select_range (row_above_first s) (row_above_first s)"
  "emitted s (onDeleteDisplay s) =
     concat (map delete_events (getSelectedObjects s)) @
     [Select (row_above_first s) (row_above_first s), NotifyConfigChanged]"
  by (simp_all add: onDeleteDisplay_unfold notifyConfigChanged_def emitted_def)

lemma map_filter_Cons_decomp:
  "List.map_filter f xs = y # ys \<Longrightarrow>
   \<exists>pre x post. xs = pre @ x # post \<and> (\<forall>z \<in> set pre. f z = None) \<and> f x = Some y
      \<and> List.map_filter f post = ys"
proof (induction xs)
  case Nil
  then show ?case by simp
next
  case (Cons a xs)
  show ?case
  proof (cases "f a")
    case None
    with Cons.prems have "List.map_filter f xs = y # ys" by simp
    from Cons.IH [OF this] obtain pre x post where
      "xs = pre @ x # post" "\<forall>z \<in> set pre. f z = None" "f x = Some y"
      "List.map_filter f post = ys"
      by blast
    with None have "a # xs = (a # pre) @ x # post \<and> (\<forall>z \<in> set (a # pre). f z = None)
        \<and> f x = Some y \<and> List.map_filter f post = ys"
      by simp
    then show ?thesis by blast
  next
    case (Some b)
    with Cons.prems have "a # xs = [] @ a # xs \<and> (\<forall>z \<in> set []. f z = None)
        \<and> f a = Some y \<and> List.map_filter f xs = ys"
      by simp
    then show ?thesis by blast
  qed
qed

lemma takeWhile_neq_less:
  "x \<in> set xs \<Longrightarrow> length (takeWhile (\<lambda>r. r \<noteq> x) xs) < length xs"
  by (induction xs) auto

lemma select_range_single:
  "select_range a a = (case a of None \<Rightarrow> [] | Some r \<Rightarrow> [r])"
  by (simp add: select_range_def split: option.splits)

lemma index_of_distinct:
  "distinct xs \<Longrightarrow> i < length xs \<Longrightarrow> length (takeWhile (\<lambda>r. r \<noteq> xs ! i) xs) = i"
proof -
  assume d: "distinct xs" and i: "i < length xs"
  let ?k = "length (takeWhile (\<lambda>r. r \<noteq> xs ! i) xs)"
  have k: "?k < length xs"
    using i by (simp add: takeWhile_neq_less)
  then have "\<not> (xs ! ?k \<noteq> xs ! i)"
    by (rule nth_length_takeWhile)
  with d k i show ?thesis
    by (simp add: nth_eq_iff_index_eq)
qed

lemma indexOf_distinct:
  "distinct (rows s) \<Longrightarrow> i < length (rows s) \<Longrightarrow> rows s ! i = DisplayRow p \<Longrightarrow>
   indexOf s p = Some i"
  using index_of_distinct [of "rows s" i] nth_mem [of i "rows s"] by (auto simp: indexOf_def)

lemma duplicates_added_fields [simp]:
  "objects (duplicates_added s) =
     objects s @ map (\<lambda>src. duplicate_of (objects s ! src)) (getSelectedObjects s)"
  "rows (duplicates_added s) =
     rows s @ map DisplayRow
       [length (objects s) ..< length (objects s) + length (getSelectedObjects s)]"
  "selection (duplicates_added s) = selection s"
  "trace (duplicates_added s) =
     trace s @ concat (map (duplicate_events (objects s))
       (zip [length (objects s) ..< length (objects s) + length (getSelectedObjects s)]
            (getSelectedObjects s)))"
  by (simp_all add: duplicates_added_def)

lemma onDuplicateDisplay_unfold:
  "onDuplicateDisplay s =
     activateWindow (startUpdate
       (if getSelectedObjects s = [] then duplicates_added s
        else select (indexOf (duplicates_added s) (length (objects s)))
               (indexOf (duplicates_added s)
                  (length (objects s) + (length (getSelectedObjects s) - 1)))
               (duplicates_added s)))"
proof -
  have live: "\<forall>src \<in> set (getSelectedObjects s). src < length (objects s)"
    using getSelectedObjects_live by blast
  show ?thesis
  proof (cases "getSelectedObjects s = []")
    case True
    then show ?thesis
      by (simp add: onDuplicateDisplay_def duplicates_added_def)
  next
    case False
    then have k: "0 < length (getSelectedObjects s)" by simp
    have "last [length (objects s) ..< length (objects s) + length (getSelectedObjects s)] =
          length (objects s) + (length (getSelectedObjects s) - 1)"
      using k by (simp del: upt_Suc length_greater_0_conv add: last_upt)
    with False k show ?thesis
      by (simp del: upt_Suc
            add: onDuplicateDisplay_def duplicate_loop_state [OF live] duplicates_added_def
                 Let_def hd_upt)
  qed
qed

lemma rows_valid_nth:
  "rows_valid s \<Longrightarrow> DisplayRow p \<in> set (rows s) \<Longrightarrow> p < length (objects s)"
  by (auto simp: rows_valid_def list_all_iff)

lemma indexOf_appended:
  assumes "rows_valid s" and "j < k" and "rows s' = rows s @ map DisplayRow [length (objects s) ..< length (objects s) + k]"
  shows "indexOf s' (length (objects s) + j) = Some (length (rows s) + j)"
proof -
  let ?n = "length (objects s)"
  let ?P = "\<lambda>r. r \<noteq> DisplayRow (?n + j)"
  have old: "\<forall>r \<in> set (rows s). ?P r"
    using rows_valid_nth [OF assms(1)] by fastforce
  have upt: "[?n ..< ?n + k] = [?n ..< ?n + j] @ (?n + j) # [Suc (?n + j) ..< ?n + k]"
    using assms(2) upt_add_eq_append [of ?n "?n + j" "k - j"] upt_conv_Cons [of "?n + j" "?n + k"]
    by simp
  have new: "\<forall>r \<in> set (map DisplayRow [?n ..< ?n + j]). ?P r"
    by auto
  have "takeWhile ?P (rows s') = rows s @ map DisplayRow [?n ..< ?n + j]"
    unfolding assms(3) upt using old new
    by (simp del: upt_Suc add: takeWhile_tail)
  moreover have "DisplayRow (?n + j) \<in> set (rows s')"
    unfolding assms(3) using assms(2) by simp
  ultimately show ?thesis
    by (simp add: indexOf_def)
qed

lemma onDuplicateDisplay_fields:
  "objects (onDuplicateDisplay s) =
     objects s @ map (\<lambda>src. duplicate_of (objects s ! src)) (getSelectedObjects s)"
  "rows (onDuplicateDisplay s) =
     rows s @ map DisplayRow
       [length (objects s) ..< length (objects s) + length (getSelectedObjects s)]"
  by (simp_all add: onDuplicateDisplay_unfold activateWindow_def startUpdate_def)

lemma onDuplicateDisplay_selection:
  assumes "rows_valid s"
  shows "selection (onDuplicateDisplay s) =
     (if getSelectedObjects s = [] then selection s
      else [length (rows s) ..< length (rows s) + length (getSelectedObjects s)])"
    and "emitted s (onDuplicateDisplay s) =
     concat (map (duplicate_events (objects s))
       (zip [length (objects s) ..< length (objects s) + length (getSelectedObjects s)]
            (getSelectedObjects s))) @
     (if getSelectedObjects s = [] then []
      else [Select (Some (length (rows s)))
              (Some (length (rows s) + (length (getSelectedObjects s) - 1)))]) @
     [StartUpdate, ActivateWindow]"
proof -
  let ?k = "length (getSelectedObjects s)"
  have ix: "getSelectedObjects s \<noteq> [] \<Longrightarrow>
      indexOf (duplicates_added s) (length (objects s)) = Some (length (rows s))
      \<and> indexOf (duplicates_added s) (length (objects s) + (?k - 1)) = Some (length (rows s) + (?k - 1))"
    using indexOf_appended [OF assms, of 0 ?k "duplicates_added s"]
      indexOf_appended [OF assms, of "?k - 1" ?k "duplicates_added s"]
    by simp
  have kk: "getSelectedObjects s \<noteq> [] \<Longrightarrow>
      Suc (length (rows s) + (?k - Suc 0)) = length (rows s) + ?k"
    by (cases "getSelectedObjects s") simp_all
  show "selection (onDuplicateDisplay s) =
     (if getSelectedObjects s = [] then selection s
      else [length (rows s) ..< length (rows s) + length (getSelectedObjects s)])"
  proof (cases "getSelectedObjects s = []")
    case True
    then show ?thesis
      by (simp add: onDuplicateDisplay_unfold activateWindow_def startUpdate_def)
  next
    case False
    with ix have "selection (onDuplicateDisplay s) =
        [length (rows s) ..< Suc (length (rows s) + (?k - Suc 0))]"
      by (simp del: upt_Suc add: onDuplicateDisplay_unfold activateWindow_def startUpdate_def
            select_range_def)
    then show ?thesis
      unfolding kk [OF False] using False by simp
  qed
  show "emitted s (onDuplicateDisplay s) =
     concat (map (duplicate_events (objects s))
       (zip [length (objects s) ..< length (objects s) + length (getSelectedObjects s)]
            (getSelectedObjects s))) @
     (if getSelectedObjects s = [] then []
      else [Select (Some (length (rows s)))
              (Some (length (rows s) + (length (getSelectedObjects s) - 1)))]) @
     [StartUpdate, ActivateWindow]"
    using ix
    by (simp del: upt_Suc add: onDuplicateDisplay_unfold activateWindow_def startUpdate_def
          emitted_def)
qed


lemma concat_map_nth:
  "k < length xs \<Longrightarrow>
   concat (map f xs) = concat (map f (take k xs)) @ f (xs ! k) @ concat (map f (drop (Suc k) xs))"
proof -
  assume "k < length xs"
  then have "xs = take k xs @ xs ! k # drop (Suc k) xs"
    by (rule id_take_nth_drop)
  then have "concat (map f xs) = concat (map f (take k xs @ xs ! k # drop (Suc k) xs))"
    by simp
  then show ?thesis by simp
qed

lemma balanced_from_no_update:
  "StopUpdate \<notin> set es \<Longrightarrow> StartUpdate \<notin> set es \<Longrightarrow> balanced_from n es = (n = 0)"
  by (induction n es rule: balanced_from.induct) auto

lemma delete_events_no_update:
  "StopUpdate \<notin> set (concat (map delete_events ds))"
  "StartUpdate \<notin> set (concat (map delete_events ds))"
  by (auto simp: delete_events_def)

lemma other_slots_balanced:
  "balanced (emitted s (onNewDisplay dialog s))"
  "balanced (emitted s (onDeleteDisplay s))"
  "balanced (emitted s (onRenameDisplay new_name s))"
  "balanced (emitted s (onSaveGroupDisplay writer save_filename s))"
  "balanced (emitted s (onLoadGroupDisplay exists reader filename s))"
proof -
  show "balanced (emitted s (onNewDisplay dialog s))"
    by (simp add: onNewDisplay_def emitted_def prim_defs Let_def balanced_def)
  show "balanced (emitted s (onDeleteDisplay s))"
    using balanced_from_no_update [of "emitted s (onDeleteDisplay s)" 0] delete_events_no_update
    by (simp add: onDeleteDisplay_fields balanced_def)
  show "balanced (emitted s (onRenameDisplay new_name s))"
    by (simp add: onRenameDisplay_def emitted_def prim_defs Let_def balanced_def)
  show "balanced (emitted s (onSaveGroupDisplay writer save_filename s))"
    by (simp add: onSaveGroupDisplay_def emitted_def prim_defs Let_def balanced_def
          split: option.splits)
  show "balanced (emitted s (onLoadGroupDisplay exists reader filename s))"
    by (simp add: onLoadGroupDisplay_def emitted_def prim_defs Let_def balanced_def
          split: option.splits)
qed

lemma rows_valid_row:
  "rows_valid s \<Longrightarrow> i < length (rows s) \<Longrightarrow> rows s ! i = DisplayRow p \<Longrightarrow>
   p < length (objects s)"
  using rows_valid_nth [of s p] nth_mem [of i "rows s"] by simp

lemma getSelectedObjects_extend:
  assumes "rows_valid s" and "selection_valid s"
    and "selection s' = selection s" and "rows s' = rows s @ extra"
    and "length (objects s) \<le> length (objects s')"
  shows "getSelectedObjects s' = getSelectedObjects s"
proof -
  have "row_display s' i = row_display s i" if "i \<in> set (selection s)" for i
  proof -
    from that assms(2) have i: "i < length (rows s)"
      by (simp add: selection_valid_def list_all_iff)
    then have same: "rows s' ! i = rows s ! i"
      by (simp add: assms(4) nth_append)
    show ?thesis
    proof (cases "rows s ! i")
      case (PropertyRow x)
      with i same show ?thesis
        by (simp add: row_display_def assms(4))
    next
      case (DisplayRow p)
      with i assms(1) have "p < length (objects s)"
        by (simp add: rows_valid_row)
      with i same DisplayRow assms(5) show ?thesis
        by (simp add: row_display_def assms(4))
    qed
  qed
  then show ?thesis
    unfolding getSelectedObjects_def assms(3) by (rule map_filter_same)
qed

lemma affordances_transfer:
  assumes "affordances_ok s"
    and "getSelectedObjects s' = getSelectedObjects s"
    and "\<And>p. p \<in> set (getSelectedObjects s) \<Longrightarrow>
           is_group (objects s' ! p) = is_group (objects s ! p)"
    and "duplicate_button s' = duplicate_button s" and "remove_button s' = remove_button s"
    and "rename_button s' = rename_button s" and "save_group_button s' = save_group_button s"
  shows "affordances_ok s'"
proof (cases "getSelectedObjects s")
  case Nil
  with assms show ?thesis by (simp add: affordances_ok_def)
next
  case (Cons d ds)
  with assms(3) [of d] have "is_group (objects s' ! d) = is_group (objects s ! d)" by simp
  with assms Cons show ?thesis by (simp add: affordances_ok_def)
qed

lemma onSelectionChanged_ok:
  "affordances_ok (onSelectionChanged s)"
proof -
  have "getSelectedObjects (onSelectionChanged s) = getSelectedObjects s"
    by (rule getSelectedObjects_cong) simp_all
  then show ?thesis
    by (cases "getSelectedObjects s")
       (auto simp add: affordances_ok_def onSelectionChanged_def Let_def)
qed

lemma DisplaysPanel_ok:
  "affordances_ok (DisplaysPanel objs rws)"
  by (simp add: affordances_ok_def getSelectedObjects_def DisplaysPanel_def)

lemma emit_ok:
  assumes "affordances_ok s"
  shows "affordances_ok (emit e s)"
proof (rule affordances_transfer [OF assms])
  show "getSelectedObjects (emit e s) = getSelectedObjects s"
    by (rule getSelectedObjects_cong) simp_all
qed (simp_all add: emit_def)

lemma select_ok:
  "affordances_ok s \<Longrightarrow> affordances_ok (select a b s)"
proof (cases "select_range a b = selection s")
  case True
  assume ok: "affordances_ok s"
  from True have "select a b s = emit (Select a b) s"
    by (cases s) (simp add: select_def Let_def emit_def)
  with ok show ?thesis by (simp add: emit_ok)
next
  case False
  then have "select a b s =
      onSelectionChanged (emit (Select a b) (s\<lparr>selection := select_range a b\<rparr>))"
    by (simp add: select_def Let_def)
  then show ?thesis by (simp add: onSelectionChanged_ok)
qed

lemma duplicates_added_ok:
  assumes "rows_valid s" and "selection_valid s" and "affordances_ok s"
  shows "affordances_ok (duplicates_added s)"
proof (rule affordances_transfer [OF assms(3)])
  show "getSelectedObjects (duplicates_added s) = getSelectedObjects s"
    by (rule getSelectedObjects_extend [OF assms(1,2)]) simp_all
  show "is_group (objects (duplicates_added s) ! p) = is_group (objects s ! p)"
    if "p \<in> set (getSelectedObjects s)" for p
    using getSelectedObjects_live [OF that] by (simp add: nth_append)
qed (simp_all add: duplicates_added_def)

lemma onDuplicateDisplay_ok:
  assumes "rows_valid s" and "selection_valid s" and "affordances_ok s"
  shows "affordances_ok (onDuplicateDisplay s)"
  unfolding onDuplicateDisplay_unfold activateWindow_def startUpdate_def
  using duplicates_added_ok [OF assms] by (simp add: emit_ok select_ok)

lemma is_group_mark_deleted [simp]:
  "is_group (mark_deleted d) = is_group d"
  by (simp add: mark_deleted_def)

lemma onDeleteDisplay_ok:
  assumes "rows_valid s" and "selection_valid s" and "affordances_ok s"
  shows "affordances_ok (onDeleteDisplay s)"
proof -
  let ?s1 = "s\<lparr>objects := fold (\<lambda>d os. os[d := mark_deleted (os ! d)])
                            (getSelectedObjects s) (objects s),
                trace := trace s @ concat (map delete_events (getSelectedObjects s))\<rparr>"
  have "affordances_ok ?s1"
  proof (rule affordances_transfer [OF assms(3)])
    show "getSelectedObjects ?s1 = getSelectedObjects s"
      by (rule getSelectedObjects_extend [OF assms(1,2), where extra = "[]"])
         (simp_all add: fold_mark_length)
    show "is_group (objects ?s1 ! p) = is_group (objects s ! p)"
      if "p \<in> set (getSelectedObjects s)" for p
      using getSelectedObjects_live [OF that] by (simp add: fold_mark_nth)
  qed simp_all
  then show ?thesis
    unfolding onDeleteDisplay_unfold notifyConfigChanged_def
    by (simp add: emit_ok select_ok)
qed

lemma onNewDisplay_ok:
  assumes "rows_valid s" and "selection_valid s" and "affordances_ok s"
  shows "affordances_ok (onNewDisplay dialog s)"
proof (rule affordances_transfer [OF assms(3)])
  show "getSelectedObjects (onNewDisplay dialog s) = getSelectedObjects s"
    by (rule getSelectedObjects_extend [OF assms(1,2),
          where extra = "if accepted dialog then [DisplayRow (length (objects s))] else []"])
       (simp_all add: onNewDisplay_def prim_defs Let_def)
  show "is_group (objects (onNewDisplay dialog s) ! p) = is_group (objects s ! p)"
    if "p \<in> set (getSelectedObjects s)" for p
    using getSelectedObjects_live [OF that]
    by (simp add: onNewDisplay_def prim_defs Let_def nth_append)
qed (simp_all add: onNewDisplay_def prim_defs Let_def)

lemma onRenameDisplay_ok:
  assumes "rows_valid s" and "selection_valid s" and "affordances_ok s"
  shows "affordances_ok (onRenameDisplay new_name s)"
proof (rule affordances_transfer [OF assms(3)])
  show "getSelectedObjects (onRenameDisplay new_name s) = getSelectedObjects s"
    by (rule getSelectedObjects_extend [OF assms(1,2), where extra = "[]"])
       (simp_all add: onRenameDisplay_def prim_defs Let_def)
  show "is_group (objects (onRenameDisplay new_name s) ! p) = is_group (objects s ! p)"
    if "p \<in> set (getSelectedObjects s)" for p
    using getSelectedObjects_live [OF that]
    by (cases "getSelectedObjects s ! 0 = p")
       (simp_all add: onRenameDisplay_def prim_defs Let_def)
qed (simp_all add: onRenameDisplay_def prim_defs Let_def)

lemma onSaveGroupDisplay_ok:
  assumes "affordances_ok s"
  shows "affordances_ok (onSaveGroupDisplay writer save_filename s)"
proof (rule affordances_transfer [OF assms])
  show "getSelectedObjects (onSaveGroupDisplay writer save_filename s) = getSelectedObjects s"
    by (rule getSelectedObjects_cong)
       (simp_all add: onSaveGroupDisplay_def prim_defs Let_def split: option.splits)
qed (simp_all add: onSaveGroupDisplay_def prim_defs Let_def split: option.splits)

lemma onLoadGroupDisplay_ok:
  assumes "rows_valid s" and "selection_valid s" and "affordances_ok s"
  shows "affordances_ok (onLoadGroupDisplay exists reader filename s)"
proof (rule affordances_transfer [OF assms(3)])
  show "getSelectedObjects (onLoadGroupDisplay exists reader filename s) = getSelectedObjects s"
    by (rule getSelectedObjects_extend [OF assms(1,2),
          where extra = "if filename \<noteq> [] \<and> exists filename \<and> reader filename \<noteq> None
                        then [DisplayRow (length (objects s))] else []"])
       (auto simp add: onLoadGroupDisplay_def prim_defs Let_def split: option.splits)
  show "is_group (objects (onLoadGroupDisplay exists reader filename s) ! p) =
        is_group (objects s ! p)"
    if "p \<in> set (getSelectedObjects s)" for p
    using getSelectedObjects_live [OF that]
    by (simp add: onLoadGroupDisplay_def prim_defs Let_def nth_append split: option.splits)
qed (simp_all add: onLoadGroupDisplay_def prim_defs Let_def split: option.splits)

lemma rows_valid_extend:
  assumes "rows_valid s" and "rows s' = rows s @ extra"
    and "length (objects s) \<le> length (objects s')"
    and "\<And>p. DisplayRow p \<in> set extra \<Longrightarrow> p < length (objects s')"
  shows "rows_valid s'"
  unfolding rows_valid_def list_all_iff
proof
  fix r
  assume "r \<in> set (rows s')"
  then consider "r \<in> set (rows s)" | "r \<in> set extra"
    by (auto simp: assms(2))
  then show "case r of PropertyRow x \<Rightarrow> True | DisplayRow p \<Rightarrow> p < length (objects s')"
  proof cases
    case 1
    with assms(1,3) show ?thesis
      by (cases r) (auto dest: rows_valid_nth)
  next
    case 2
    with assms(4) show ?thesis
      by (cases r) auto
  qed
qed

lemma selection_valid_extend:
  "selection_valid s \<Longrightarrow> selection s' = selection s \<Longrightarrow>
   length (rows s) \<le> length (rows s') \<Longrightarrow> selection_valid s'"
  by (fastforce simp: selection_valid_def list_all_iff)

lemma indexOf_valid:
  "indexOf s p = Some i \<Longrightarrow> i < length (rows s)"
  by (auto simp: indexOf_def takeWhile_neq_less split: if_splits)

lemma selection_valid_select:
  "(\<And>i. b = Some i \<Longrightarrow> i < length (rows s)) \<Longrightarrow> selection_valid (select a b s)"
  by (cases a; cases b) (auto simp: selection_valid_def list_all_iff select_range_def)

lemma row_above_first_valid:
  "row_above_first s = Some i \<Longrightarrow> i < length (rows s)"
  by (auto simp: row_above_first_def sibling_above_def dest!: indexOf_valid
        split: list.splits option.splits if_splits)

lemma slots_keep_wellformed:
  assumes "rows_valid s" and "selection_valid s"
  shows "rows_valid (onNewDisplay dialog s) \<and> selection_valid (onNewDisplay dialog s)"
    and "rows_valid (onDuplicateDisplay s) \<and> selection_valid (onDuplicateDisplay s)"
    and "rows_valid (onDeleteDisplay s) \<and> selection_valid (onDeleteDisplay s)"
    and "rows_valid (onRenameDisplay new_name s) \<and> selection_valid (onRenameDisplay new_name s)"
    and "rows_valid (onSaveGroupDisplay writer save_filename s)
         \<and> selection_valid (onSaveGroupDisplay writer save_filename s)"
    and "rows_valid (onLoadGroupDisplay exists reader filename s)
         \<and> selection_valid (onLoadGroupDisplay exists reader filename s)"
proof -
  show "rows_valid (onNewDisplay dialog s) \<and> selection_valid (onNewDisplay dialog s)"
  proof
    show "rows_valid (onNewDisplay dialog s)"
      by (rule rows_valid_extend [OF assms(1),
            where extra = "if accepted dialog then [DisplayRow (length (objects s))] else []"])
         (auto simp add: onNewDisplay_def prim_defs Let_def split: if_splits)
    show "selection_valid (onNewDisplay dialog s)"
      by (rule selection_valid_extend [OF assms(2)])
         (simp_all add: onNewDisplay_def prim_defs Let_def)
  qed
  show "rows_valid (onDuplicateDisplay s) \<and> selection_valid (onDuplicateDisplay s)"
  proof
    show "rows_valid (onDuplicateDisplay s)"
      by (rule rows_valid_extend [OF assms(1), where extra = "map DisplayRow
              [length (objects s) ..< length (objects s) + length (getSelectedObjects s)]"])
         (auto simp add: onDuplicateDisplay_fields)
    show "selection_valid (onDuplicateDisplay s)"
    proof (cases "getSelectedObjects s = []")
      case True
      then have "selection (onDuplicateDisplay s) = selection s"
        by (simp add: onDuplicateDisplay_selection(1) [OF assms(1)])
      then show ?thesis
        by (rule selection_valid_extend [OF assms(2)]) (simp add: onDuplicateDisplay_fields)
    next
      case False
      then show ?thesis
        by (simp add: selection_valid_def list_all_iff onDuplicateDisplay_selection(1) [OF assms(1)]
              onDuplicateDisplay_fields)
    qed
  qed
  show "rows_valid (onDeleteDisplay s) \<and> selection_valid (onDeleteDisplay s)"
  proof
    show "rows_valid (onDeleteDisplay s)"
      by (rule rows_valid_extend [OF assms(1), where extra = "[]"])
         (simp_all add: onDeleteDisplay_fields fold_mark_length)
    have "selection_valid (select (row_above_first s) (row_above_first s) s)"
      by (rule selection_valid_select) (rule row_above_first_valid)
    then show "selection_valid (onDeleteDisplay s)"
      by (simp add: selection_valid_def onDeleteDisplay_fields)
  qed
  show "rows_valid (onRenameDisplay new_name s) \<and> selection_valid (onRenameDisplay new_name s)"
  proof
    show "rows_valid (onRenameDisplay new_name s)"
      by (rule rows_valid_extend [OF assms(1), where extra = "[]"])
         (simp_all add: onRenameDisplay_def prim_defs Let_def)
    show "selection_valid (onRenameDisplay new_name s)"
      by (rule selection_valid_extend [OF assms(2)])
         (simp_all add: onRenameDisplay_def prim_defs Let_def)
  qed
  show "rows_valid (onSaveGroupDisplay writer save_filename s)
         \<and> selection_valid (onSaveGroupDisplay writer save_filename s)"
  proof
    show "rows_valid (onSaveGroupDisplay writer save_filename s)"
      by (rule rows_valid_extend [OF assms(1), where extra = "[]"])
         (simp_all add: onSaveGroupDisplay_def prim_defs Let_def split: option.splits)
    show "selection_valid (onSaveGroupDisplay writer save_filename s)"
      by (rule selection_valid_extend [OF assms(2)])
         (simp_all add: onSaveGroupDisplay_def prim_defs Let_def split: option.splits)
  qed
  show "rows_valid (onLoadGroupDisplay exists reader filename s)
         \<and> selection_valid (onLoadGroupDisplay exists reader filename s)"
  proof
    show "rows_valid (onLoadGroupDisplay exists reader filename s)"
      by (rule rows_valid_extend [OF assms(1),
            where extra = "if filename \<noteq> [] \<and> exists filename \<and> reader filename \<noteq> None
                          then [DisplayRow (length (objects s))] else []"])
         (auto simp add: onLoadGroupDisplay_def prim_defs Let_def split: option.splits if_splits)
    show "selection_valid (onLoadGroupDisplay exists reader filename s)"
      by (rule selection_valid_extend [OF assms(2)])
         (simp_all add: onLoadGroupDisplay_def prim_defs Let_def split: option.splits)
  qed
qed

lemma user_selects_fields [simp]:
  "objects (user_selects sel s) = objects s" "rows (user_selects sel s) = rows s"
  "selection (user_selects sel s) = sel" "trace (user_selects sel s) = trace s"
  by (simp_all add: user_selects_def onSelectionChanged_def Let_def)

lemma three_displays_fields:
  "objects three_displays =
     [\<lparr>class_id = ''rviz/Grid'', name = ''Grid'', enabled = True, is_group = False,
        configuration = Config, connected = True, delete_later = False\<rparr>,
      \<lparr>class_id = ''rviz/Camera'', name = ''Camera'', enabled = True, is_group = False,
        configuration = Config, connected = True, delete_later = False\<rparr>,
      \<lparr>class_id = ''rviz/Group'', name = ''Group'', enabled = True, is_group = True,
        configuration = Config, connected = True, delete_later = False\<rparr>]"
  "rows three_displays =
     [PropertyRow ''Global Options'', PropertyRow ''Global Status'',
      DisplayRow 0, DisplayRow 1, DisplayRow 2]"
  "selection three_displays = []"
  "trace three_displays = []"
  by (simp_all add: three_displays_def DisplaysPanel_def DisplayFactory_make_def group_class_id_def)

lemma three_displays_selected:
  "getSelectedObjects (user_selects [2] three_displays) = [0]"
  "getSelectedObjects (user_selects [4] three_displays) = [2]"
  "getSelectedObjects (user_selects [3, 4] three_displays) = [1, 2]"
  "getSelectedObjects (user_selects [4, 3] three_displays) = [2, 1]"
  "getSelectedObjects three_displays = []"
  by (simp_all add: three_displays_fields getSelectedObjects_def row_display_def)

lemma three_displays_indexOf:
  "indexOf (user_selects sel three_displays) 0 = Some 2"
  "indexOf (user_selects sel three_displays) (Suc 0) = Some 3"
  "indexOf (user_selects sel three_displays) 2 = Some 4"
  by (simp_all add: indexOf_def three_displays_fields)

lemma three_displays_row_above:
  "row_above_first (user_selects [3, 4] three_displays) = Some 2"
  "row_above_first (user_selects [4, 3] three_displays) = Some 3"
  by (simp_all add: row_above_first_def three_displays_selected three_displays_indexOf
        sibling_above_def)

lemma three_displays_rows_valid:
  "rows_valid (user_selects sel three_displays)"
  by (simp add: rows_valid_def three_displays_fields)

lemma three_displays_selection_valid:
  "selection_valid (user_selects [4] three_displays)"
  by (simp add: selection_valid_def three_displays_fields)

lemma three_displays_after_delete:
  "getSelectedObjects (onDeleteDisplay (user_selects [4] three_displays)) = [1]"
  "is_group (objects (onDeleteDisplay (user_selects [4] three_displays)) ! Suc 0) = False"
  by (simp_all add: getSelectedObjects_def row_display_def onDeleteDisplay_fields
        row_above_first_def three_displays_selected three_displays_indexOf sibling_above_def
        select_range_single three_displays_fields fold_mark_length mark_deleted_def)

subsection \<open>Add\<close>

text \<open>
  Claim C9. The add operation pauses the update loop, shows the prompt, and resumes the
  loop afterwards whether the prompt was confirmed or cancelled. On confirmation one new
  item of the chosen type and name is appended to the registry, and it is configured to
  consume the topic exactly when both a topic and a datatype were supplied. On
  cancellation the registry is left as it was.
\<close>

theorem onNewDisplay_add:
  "emitted s (onNewDisplay dialog s) =
     [StopUpdate, Prompt AddDisplayDialog] @
     (if accepted dialog then
        CreateDisplay (dlg_lookup_name dialog) (dlg_display_name dialog) True #
        (if dlg_topic dialog \<noteq> [] \<and> dlg_datatype dialog \<noteq> []
         then [SetTopic (length (objects s)) (dlg_topic dialog) (dlg_datatype dialog)] else [])
      else []) @
     [StartUpdate, ActivateWindow]
   \<and> (accepted dialog \<longrightarrow>
        (\<exists>new. objects (onNewDisplay dialog s) = objects s @ [new]
           \<and> class_id new = dlg_lookup_name dialog
           \<and> name new = dlg_display_name dialog
           \<and> cfg_topic (configuration new) =
               (if dlg_topic dialog \<noteq> [] \<and> dlg_datatype dialog \<noteq> []
                then Some (dlg_topic dialog, dlg_datatype dialog) else None))
        \<and> rows (onNewDisplay dialog s) = rows s @ [DisplayRow (length (objects s))])
   \<and> (\<not> accepted dialog \<longrightarrow>
        objects (onNewDisplay dialog s) = objects s \<and> rows (onNewDisplay dialog s) = rows s)"
  by (simp add: onNewDisplay_def emitted_def prim_defs Let_def DisplayFactory_make_def Config_def)

theorem onNewDisplay_add_witness:
  "accepted add_accepted
   \<and> rows (onNewDisplay add_accepted three_displays) = rows three_displays @ [DisplayRow 3]
   \<and> emitted three_displays (onNewDisplay add_accepted three_displays) =
       [StopUpdate, Prompt AddDisplayDialog, CreateDisplay ''rviz/Image'' ''Image'' True,
        SetTopic 3 ''/camera/image'' ''sensor_msgs/Image'', StartUpdate, ActivateWindow]
   \<and> \<not> accepted add_cancelled
   \<and> objects (onNewDisplay add_cancelled three_displays) = objects three_displays
   \<and> emitted three_displays (onNewDisplay add_cancelled three_displays) =
       [StopUpdate, Prompt AddDisplayDialog, StartUpdate, ActivateWindow]"
  using onNewDisplay_add [where s = three_displays and dialog = add_accepted]
    onNewDisplay_add [where s = three_displays and dialog = add_cancelled]
  by (simp add: example_defs)

subsection \<open>Rename\<close>

text \<open>
  Claim C6. Rename does nothing on an empty selection. Otherwise it works on the first
  selected item only: when the new name is empty or equal to the current name no item
  changes; when it is a different, non-empty name, exactly that item's name is set to it
  and every other item stays as it was. The rows of the registry and the selection are
  not touched.
\<close>

theorem onRenameDisplay_first_only:
  "(getSelectedObjects s = [] \<longrightarrow> onRenameDisplay new_name s = s)
   \<and> (\<forall>d ds. getSelectedObjects s = d # ds \<longrightarrow>
        (new_name = [] \<or> new_name = name (objects s ! d) \<longrightarrow>
           objects (onRenameDisplay new_name s) = objects s)
      \<and> (new_name \<noteq> [] \<and> new_name \<noteq> name (objects s ! d) \<longrightarrow>
           objects (onRenameDisplay new_name s) =
             (objects s)[d := (objects s ! d)\<lparr>name := new_name\<rparr>]
         \<and> name (objects (onRenameDisplay new_name s) ! d) = new_name
         \<and> (\<forall>q. q \<noteq> d \<longrightarrow> objects (onRenameDisplay new_name s) ! q = objects s ! q))
      \<and> length (objects (onRenameDisplay new_name s)) = length (objects s)
      \<and> rows (onRenameDisplay new_name s) = rows s
      \<and> selection (onRenameDisplay new_name s) = selection s)"
proof -
  have live: "\<And>d ds. getSelectedObjects s = d # ds \<Longrightarrow> d < length (objects s)"
    using getSelectedObjects_live [of _ s] by simp
  show ?thesis
    using live by (auto simp add: onRenameDisplay_def prim_defs Let_def)
qed

theorem onRenameDisplay_first_only_witness:
  "getSelectedObjects (user_selects [3, 4] three_displays) = [1, 2]
   \<and> ''Front camera'' \<noteq> [] \<and> ''Front camera'' \<noteq> name (objects (user_selects [3, 4] three_displays) ! 1)
   \<and> map name (objects (onRenameDisplay ''Front camera'' (user_selects [3, 4] three_displays))) =
       [''Grid'', ''Front camera'', ''Group'']
   \<and> map name (objects (onRenameDisplay ''Camera'' (user_selects [3, 4] three_displays))) =
       [''Grid'', ''Camera'', ''Group'']
   \<and> map name (objects (onRenameDisplay [] (user_selects [3, 4] three_displays))) =
       [''Grid'', ''Camera'', ''Group'']
   \<and> getSelectedObjects three_displays = []
   \<and> onRenameDisplay ''Front camera'' three_displays = three_displays"
  using
    onRenameDisplay_first_only [where s = "user_selects [3, 4] three_displays"
      and new_name = "''Front camera''"]
    onRenameDisplay_first_only [where s = "user_selects [3, 4] three_displays"
      and new_name = "''Camera''"]
    onRenameDisplay_first_only [where s = "user_selects [3, 4] three_displays"
      and new_name = "[]"]
    onRenameDisplay_first_only [where s = three_displays and new_name = "''Front camera''"]
  by (simp add: three_displays_selected three_displays_fields)

subsection \<open>Load Group\<close>

text \<open>
  Claim C7. After a path was chosen: when the path does not exist, an error box is shown
  and nothing but the trace changes; when the reader reports an error, the slot returns
  without a message and without touching the registry; when the file was read, and only
  then, the host's \<open>loadGroup\<close> is called with the configuration read and a new group is
  appended. On each of these paths the update loop was paused before the file prompt and
  resumed right after it.
\<close>

theorem onLoadGroupDisplay_paths:
  "(filename \<noteq> [] \<and> \<not> exists filename \<longrightarrow>
      emitted s (onLoadGroupDisplay exists reader filename s) =
        [StopUpdate, Prompt OpenFileDialog, StartUpdate,
         CriticalBox ''Config file does not exist'' (filename @ '' does not exist!'')]
      \<and> (onLoadGroupDisplay exists reader filename s)\<lparr>trace := trace s\<rparr> = s)
   \<and> (filename \<noteq> [] \<and> exists filename \<and> reader filename = None \<longrightarrow>
      emitted s (onLoadGroupDisplay exists reader filename s) =
        [StopUpdate, Prompt OpenFileDialog, StartUpdate, ReadFile filename]
      \<and> (onLoadGroupDisplay exists reader filename s)\<lparr>trace := trace s\<rparr> = s)
   \<and> (\<forall>cfg. filename \<noteq> [] \<and> exists filename \<and> reader filename = Some cfg \<longrightarrow>
      emitted s (onLoadGroupDisplay exists reader filename s) =
        [StopUpdate, Prompt OpenFileDialog, StartUpdate, ReadFile filename, LoadGroup cfg]
      \<and> (\<exists>grp. objects (onLoadGroupDisplay exists reader filename s) = objects s @ [grp]
            \<and> is_group grp \<and> configuration grp = cfg)
      \<and> rows (onLoadGroupDisplay exists reader filename s) =
          rows s @ [DisplayRow (length (objects s))])
   \<and> (\<forall>cfg. LoadGroup cfg \<in> set (emitted s (onLoadGroupDisplay exists reader filename s))
         \<longleftrightarrow> filename \<noteq> [] \<and> exists filename \<and> reader filename = Some cfg)
   \<and> balanced (emitted s (onLoadGroupDisplay exists reader filename s))"
  by (cases s; cases "reader filename")
     (auto simp add: onLoadGroupDisplay_def emitted_def prim_defs Let_def DisplayFactory_make_def
       balanced_def)

theorem onLoadGroupDisplay_paths_witness:
  "''/tmp/missing.rviz'' \<noteq> [] \<and> \<not> example_exists ''/tmp/missing.rviz''
   \<and> emitted three_displays
        (onLoadGroupDisplay example_exists example_reader ''/tmp/missing.rviz'' three_displays) =
       [StopUpdate, Prompt OpenFileDialog, StartUpdate,
        CriticalBox ''Config file does not exist'' ''/tmp/missing.rviz does not exist!'']
   \<and> example_exists ''/tmp/broken.rviz'' \<and> example_reader ''/tmp/broken.rviz'' = None
   \<and> (onLoadGroupDisplay example_exists example_reader ''/tmp/broken.rviz'' three_displays)
         \<lparr>trace := trace three_displays\<rparr> = three_displays
   \<and> example_exists ''/tmp/group.rviz'' \<and> example_reader ''/tmp/group.rviz'' = Some saved_group
   \<and> rows (onLoadGroupDisplay example_exists example_reader ''/tmp/group.rviz'' three_displays) =
       rows three_displays @ [DisplayRow 3]
   \<and> LoadGroup saved_group \<in> set (emitted three_displays
        (onLoadGroupDisplay example_exists example_reader ''/tmp/group.rviz'' three_displays))"
  using
    onLoadGroupDisplay_paths [where s = three_displays and exists = example_exists
      and reader = example_reader and filename = "''/tmp/missing.rviz''"]
    onLoadGroupDisplay_paths [where s = three_displays and exists = example_exists
      and reader = example_reader and filename = "''/tmp/broken.rviz''"]
    onLoadGroupDisplay_paths [where s = three_displays and exists = example_exists
      and reader = example_reader and filename = "''/tmp/group.rviz''"]
  by (simp add: example_defs)

subsection \<open>Save Group\<close>

text \<open>
  Claim C8. With exactly one item selected and a file chosen: the file written is the
  chosen name when its extension is \<^verbatim>\<open>.rviz\<close>, and the chosen name with \<^verbatim>\<open>.rviz\<close>
  appended otherwise; what is written is the configuration the selected item saves; when
  the writer reports an error, its message is logged and shown in an error box; and the
  panel's state does not change apart from the calls recorded in the trace.
\<close>

theorem onSaveGroupDisplay_writes:
  "getSelectedObjects s = [d] \<and> save_filename \<noteq> [] \<longrightarrow>
     emitted s (onSaveGroupDisplay writer save_filename s) =
       [StopUpdate, Prompt SaveFileDialog, StartUpdate, Save d,
        WriteFile (configuration (objects s ! d))
          (if path_extension save_filename = ''.rviz'' then save_filename
           else save_filename @ ''.rviz'')] @
       (case writer (configuration (objects s ! d))
               (if path_extension save_filename = ''.rviz'' then save_filename
                else save_filename @ ''.rviz'') of
          None \<Rightarrow> []
        | Some error_message \<Rightarrow>
            [RosError error_message, CriticalBox ''Failed to save.'' error_message])
     \<and> (onSaveGroupDisplay writer save_filename s)\<lparr>trace := trace s\<rparr> = s"
  by (cases s)
     (auto simp add: onSaveGroupDisplay_def emitted_def prim_defs Let_def CONFIG_EXTENSION_def
       split: option.splits)

theorem onSaveGroupDisplay_writes_witness:
  "getSelectedObjects (user_selects [2] three_displays) = [0] \<and> ''/tmp/grid'' \<noteq> []
   \<and> emitted (user_selects [2] three_displays)
        (onSaveGroupDisplay example_writer ''/tmp/grid'' (user_selects [2] three_displays)) =
       [StopUpdate, Prompt SaveFileDialog, StartUpdate, Save 0, WriteFile Config ''/tmp/grid.rviz'']
   \<and> emitted (user_selects [2] three_displays)
        (onSaveGroupDisplay example_writer ''/tmp/grid.yaml'' (user_selects [2] three_displays)) =
       [StopUpdate, Prompt SaveFileDialog, StartUpdate, Save 0,
        WriteFile Config ''/tmp/grid.yaml.rviz'']
   \<and> emitted (user_selects [2] three_displays)
        (onSaveGroupDisplay example_writer ''/readonly/grid.rviz'' (user_selects [2] three_displays)) =
       [StopUpdate, Prompt SaveFileDialog, StartUpdate, Save 0,
        WriteFile Config ''/readonly/grid.rviz'',
        RosError ''Failed to open file for writing'',
        CriticalBox ''Failed to save.'' ''Failed to open file for writing'']"
  using
    onSaveGroupDisplay_writes [where s = "user_selects [2] three_displays" and d = 0
      and writer = example_writer and save_filename = "''/tmp/grid''"]
    onSaveGroupDisplay_writes [where s = "user_selects [2] three_displays" and d = 0
      and writer = example_writer and save_filename = "''/tmp/grid.yaml''"]
    onSaveGroupDisplay_writes [where s = "user_selects [2] three_displays" and d = 0
      and writer = example_writer and save_filename = "''/readonly/grid.rviz''"]
  by (simp add: three_displays_selected three_displays_fields path_extension_def
        path_filename_def example_writer_def)

text \<open>
  Claim C10. The save-group slot tests the number of selected items and nothing else: it
  returns at once unless exactly one display is selected, and with one selected display,
  group or not, and a chosen file it saves the display's configuration and hands it to
  the writer. The test for a group is made by the affordance logic alone: after a
  notification with one display selected, the Save Group button is enabled exactly when
  that display is a group (the runtime type test), and it is disabled whenever the
  number of selected displays is not one.
\<close>

theorem onSaveGroupDisplay_no_group_check:
  "(length (getSelectedObjects s) \<noteq> 1 \<longrightarrow>
      onSaveGroupDisplay writer save_filename s = s
      \<and> \<not> save_group_button (onSelectionChanged s))
   \<and> (getSelectedObjects s = [d] \<and> save_filename \<noteq> [] \<longrightarrow>
        Save d \<in> set (emitted s (onSaveGroupDisplay writer save_filename s))
      \<and> WriteFile (configuration (objects s ! d))
           (if path_extension save_filename = ''.rviz'' then save_filename
            else save_filename @ ''.rviz'')
          \<in> set (emitted s (onSaveGroupDisplay writer save_filename s))
      \<and> save_group_button (onSelectionChanged s) = is_group (objects s ! d)
      \<and> rename_button (onSelectionChanged s))"
proof (intro conjI impI)
  assume "length (getSelectedObjects s) \<noteq> 1"
  then show "onSaveGroupDisplay writer save_filename s = s"
    and "\<not> save_group_button (onSelectionChanged s)"
    by (simp_all add: onSaveGroupDisplay_def onSelectionChanged_def Let_def)
next
  assume one: "getSelectedObjects s = [d] \<and> save_filename \<noteq> []"
  then show "Save d \<in> set (emitted s (onSaveGroupDisplay writer save_filename s))"
    and "WriteFile (configuration (objects s ! d))
           (if path_extension save_filename = ''.rviz'' then save_filename
            else save_filename @ ''.rviz'')
          \<in> set (emitted s (onSaveGroupDisplay writer save_filename s))"
    by (auto simp add: onSaveGroupDisplay_def emitted_def prim_defs Let_def
          CONFIG_EXTENSION_def split: option.splits)
  from one show "save_group_button (onSelectionChanged s) = is_group (objects s ! d)"
    and "rename_button (onSelectionChanged s)"
    by (simp_all add: onSelectionChanged_def Let_def)
qed

theorem onSaveGroupDisplay_no_group_check_witness:
  "getSelectedObjects (user_selects [2] three_displays) = [0]
   \<and> \<not> is_group (objects (user_selects [2] three_displays) ! 0) \<and> ''/tmp/grid.rviz'' \<noteq> []
   \<and> WriteFile Config ''/tmp/grid.rviz''
         \<in> set (emitted (user_selects [2] three_displays)
                 (onSaveGroupDisplay example_writer ''/tmp/grid.rviz''
                    (user_selects [2] three_displays)))
   \<and> \<not> save_group_button (onSelectionChanged (user_selects [2] three_displays))
   \<and> getSelectedObjects (user_selects [4] three_displays) = [2]
   \<and> is_group (objects (user_selects [4] three_displays) ! 2)
   \<and> save_group_button (onSelectionChanged (user_selects [4] three_displays))
   \<and> length (getSelectedObjects (user_selects [3, 4] three_displays)) \<noteq> 1
   \<and> onSaveGroupDisplay example_writer ''/tmp/grid.rviz'' (user_selects [3, 4] three_displays) =
       user_selects [3, 4] three_displays
   \<and> \<not> save_group_button (onSelectionChanged (user_selects [3, 4] three_displays))"
  using
    onSaveGroupDisplay_no_group_check [where s = "user_selects [2] three_displays" and d = 0
      and writer = example_writer and save_filename = "''/tmp/grid.rviz''"]
    onSaveGroupDisplay_no_group_check [where s = "user_selects [4] three_displays" and d = 2
      and writer = example_writer and save_filename = "''/tmp/grid.rviz''"]
    onSaveGroupDisplay_no_group_check [where s = "user_selects [3, 4] three_displays" and d = 0
      and writer = example_writer and save_filename = "''/tmp/grid.rviz''"]
  by (simp add: three_displays_selected three_displays_fields path_extension_def
        path_filename_def)

subsection \<open>Delete\<close>

text \<open>
  Claim C1. For every item of the selection handed to delete, the slot calls
  \<open>disconnect\<close> on the item and directly afterwards \<open>deleteLater\<close>; no \<open>deleteLater\<close> of an
  item is ever issued without a \<open>disconnect\<close> of that item earlier in the same call. The
  deletion is only posted: when the slot returns, every such item is still in the object
  store and in its row, disconnected and marked for the deferred deletion.
\<close>

theorem onDeleteDisplay_severs_then_defers:
  "(\<forall>d \<in> set (getSelectedObjects s).
      (\<exists>pre post. emitted s (onDeleteDisplay s) = pre @ Disconnect d # DeleteLater d # post)
    \<and> (\<forall>pre post. emitted s (onDeleteDisplay s) = pre @ DeleteLater d # post
          \<longrightarrow> Disconnect d \<in> set pre)
    \<and> d < length (objects (onDeleteDisplay s))
    \<and> \<not> connected (objects (onDeleteDisplay s) ! d)
    \<and> delete_later (objects (onDeleteDisplay s) ! d))
   \<and> length (objects (onDeleteDisplay s)) = length (objects s)
   \<and> rows (onDeleteDisplay s) = rows s"
proof -
  let ?ds = "getSelectedObjects s"
  let ?tl = "[Select (row_above_first s) (row_above_first s), NotifyConfigChanged]"
  have len: "length (objects (onDeleteDisplay s)) = length (objects s)"
    by (simp add: onDeleteDisplay_fields fold_mark_length)
  have "\<exists>pre post. emitted s (onDeleteDisplay s) = pre @ Disconnect d # DeleteLater d # post"
    if "d \<in> set ?ds" for d
    using delete_events_present [OF that, of ?tl] by (simp add: onDeleteDisplay_fields)
  moreover have "Disconnect d \<in> set pre"
    if "emitted s (onDeleteDisplay s) = pre @ DeleteLater d # post" for d pre post
    using delete_events_order [of ?ds ?tl pre d post] that by (simp add: onDeleteDisplay_fields)
  moreover have "d < length (objects (onDeleteDisplay s))
      \<and> \<not> connected (objects (onDeleteDisplay s) ! d)
      \<and> delete_later (objects (onDeleteDisplay s) ! d)"
    if "d \<in> set ?ds" for d
  proof -
    from that have "d < length (objects s)"
      using getSelectedObjects_live by blast
    with that show ?thesis
      by (simp add: onDeleteDisplay_fields fold_mark_length fold_mark_nth)
         (simp add: mark_deleted_def)
  qed
  ultimately show ?thesis
    using len by (simp add: onDeleteDisplay_fields(2))
qed

theorem onDeleteDisplay_severs_then_defers_witness:
  "2 \<in> set (getSelectedObjects (user_selects [3, 4] three_displays))
   \<and> (\<exists>pre post. emitted (user_selects [3, 4] three_displays)
          (onDeleteDisplay (user_selects [3, 4] three_displays)) =
        pre @ Disconnect 2 # DeleteLater 2 # post)
   \<and> \<not> connected (objects (onDeleteDisplay (user_selects [3, 4] three_displays)) ! 2)
   \<and> delete_later (objects (onDeleteDisplay (user_selects [3, 4] three_displays)) ! 2)
   \<and> length (objects (onDeleteDisplay (user_selects [3, 4] three_displays))) = 3
   \<and> rows (onDeleteDisplay (user_selects [3, 4] three_displays)) = rows three_displays"
  using onDeleteDisplay_severs_then_defers [where s = "user_selects [3, 4] three_displays"]
  by (simp add: three_displays_selected three_displays_fields)

text \<open>
  What the slot selects: the single row directly above the row of
  \<open>displays_to_delete[0]\<close>, the first item in the order the selection surface reports,
  and nothing when that item sits in row 0. When no display occupies two rows and the
  selection is reported top-first, that row holds none of the items handed to delete.
\<close>

lemma onDeleteDisplay_row_above_first_selected:
  "getSelectedObjects s = d # ds \<longrightarrow>
     selection (onDeleteDisplay s) =
       (case indexOf s d of None \<Rightarrow> [] | Some r \<Rightarrow> if r = 0 then [] else [r - 1])
     \<and> (distinct (rows s) \<and> sorted_wrt (<) (selection s)
          \<longrightarrow> avoids_deleted s (onDeleteDisplay s))"
proof (intro impI conjI)
  assume sel: "getSelectedObjects s = d # ds"
  then have above: "row_above_first s = sibling_above (indexOf s d)"
    by (simp add: row_above_first_def)
  show new: "selection (onDeleteDisplay s) =
      (case indexOf s d of None \<Rightarrow> [] | Some r \<Rightarrow> if r = 0 then [] else [r - 1])"
    by (simp add: onDeleteDisplay_fields above select_range_single)
       (simp add: sibling_above_def split: option.splits)
  assume wf: "distinct (rows s) \<and> sorted_wrt (<) (selection s)"
  from sel obtain pre i post where
    split: "selection s = pre @ i # post" and
    i: "row_display s i = Some d" and
    post: "List.map_filter (row_display s) post = ds"
    unfolding getSelectedObjects_def by (blast dest: map_filter_Cons_decomp)
  from i have il: "i < length (rows s)" and ri: "rows s ! i = DisplayRow d"
    by (simp_all add: row_display_Some)
  with wf have ix: "indexOf s d = Some i"
    by (simp add: indexOf_distinct)
  have later: "\<exists>j. i \<le> j \<and> j < length (rows s) \<and> rows s ! j = DisplayRow p"
    if "p \<in> set (d # ds)" for p
  proof (cases "p = d")
    case True
    with il ri show ?thesis by blast
  next
    case False
    with that post obtain j where "j \<in> set post" "row_display s j = Some p"
      by (auto simp: map_filter_mem)
    moreover from wf split this(1) have "i < j"
      by (auto simp: sorted_wrt_append)
    ultimately have "i \<le> j \<and> j < length (rows s) \<and> rows s ! j = DisplayRow p"
      by (simp add: row_display_Some)
    then show ?thesis by blast
  qed
  have rd: "row_display (onDeleteDisplay s) k = Some p \<Longrightarrow> rows s ! k = DisplayRow p
      \<and> k < length (rows s)" for k p
    by (simp add: row_display_Some onDeleteDisplay_fields)
  show "avoids_deleted s (onDeleteDisplay s)"
  proof (cases "i = 0")
    case True
    with new ix show ?thesis by (simp add: avoids_deleted_def)
  next
    case False
    have "p \<notin> set (d # ds)" if "row_display (onDeleteDisplay s) (i - 1) = Some p" for p
    proof
      assume "p \<in> set (d # ds)"
      from later [OF this] obtain j where j: "i \<le> j" "j < length (rows s)"
        "rows s ! j = DisplayRow p" by blast
      from rd [OF that] have "rows s ! (i - 1) = DisplayRow p" "i - 1 < length (rows s)"
        by simp_all
      with j wf have "i - 1 = j"
        using nth_eq_iff_index_eq [of "rows s" "i - 1" j] by simp
      with j(1) False show False by simp
    qed
    with new ix False sel show ?thesis
      by (auto simp add: avoids_deleted_def split: option.splits)
  qed
qed

lemma onDeleteDisplay_top_first_scenario:
  "getSelectedObjects (user_selects [3, 4] three_displays) = [1, 2]
   \<and> distinct (rows (user_selects [3, 4] three_displays))
   \<and> sorted_wrt (<) (selection (user_selects [3, 4] three_displays))
   \<and> selection (onDeleteDisplay (user_selects [3, 4] three_displays)) = [2]
   \<and> rows (onDeleteDisplay (user_selects [3, 4] three_displays)) ! 2 = DisplayRow 0
   \<and> avoids_deleted (user_selects [3, 4] three_displays)
        (onDeleteDisplay (user_selects [3, 4] three_displays))"
  using onDeleteDisplay_row_above_first_selected [where s = "user_selects [3, 4] three_displays"
      and d = 1 and ds = "[2]"]
  by (simp add: three_displays_selected three_displays_fields three_displays_indexOf
        onDeleteDisplay_fields(2))

text \<open>
  Claim C5. After a delete of a non-empty selection, the item directly before the first
  deleted item in registry order is selected, and the new selection references no
  removed item; deleting the items at positions 1 and 2 of three leaves position 0
  selected. The slot keeps to this only when the selection surface reports the selected
  items top-first. It takes \<open>displays_to_delete[0]\<close> for the first deleted item without
  ordering the list (lines 199 to 205). With the displays at positions 1 and 2 (rows 3
  and 4) clicked top-first it selects row 2, the display at position 0. With the same two
  displays clicked bottom-first it selects row 3, which holds the display at position 1,
  one of the two items it has just handed to \<open>deleteLater\<close>.
\<close>

theorem onDeleteDisplay_selects_deleted_item:
  "getSelectedObjects (user_selects [3, 4] three_displays) = [1, 2]
   \<and> selection (onDeleteDisplay (user_selects [3, 4] three_displays)) = [2]
   \<and> row_display (onDeleteDisplay (user_selects [3, 4] three_displays)) 2 = Some 0
   \<and> avoids_deleted (user_selects [3, 4] three_displays)
         (onDeleteDisplay (user_selects [3, 4] three_displays))
   \<and> getSelectedObjects (user_selects [4, 3] three_displays) = [2, 1]
   \<and> set (getSelectedObjects (user_selects [4, 3] three_displays)) =
       set (getSelectedObjects (user_selects [3, 4] three_displays))
   \<and> selection (onDeleteDisplay (user_selects [4, 3] three_displays)) = [3]
   \<and> row_display (onDeleteDisplay (user_selects [4, 3] three_displays)) 3 = Some 1
   \<and> delete_later (objects (onDeleteDisplay (user_selects [4, 3] three_displays)) ! 1)
   \<and> \<not> avoids_deleted (user_selects [4, 3] three_displays)
          (onDeleteDisplay (user_selects [4, 3] three_displays))"
  by (simp add: three_displays_selected three_displays_fields three_displays_row_above
        onDeleteDisplay_fields select_range_single avoids_deleted_def row_display_def
        fold_mark_length mark_deleted_def insert_commute)

subsection \<open>Duplicate\<close>

text \<open>
  Claim C3. On a panel whose display rows point to live objects, duplicate appends one
  new item per selected item, in selection order, and leaves the existing items as they
  were. The \<open>k\<close>-th new item has the type identifier and the name of the \<open>k\<close>-th
  selected item, and the configuration that item saved, which was loaded into the new
  item; it is a new object, different from its source. Afterwards the selection is the
  contiguous range of the rows of the new items; on an empty selection nothing is
  created and the selection stays.
\<close>

theorem onDuplicateDisplay_copies:
  "rows_valid s \<longrightarrow>
     length (objects (onDuplicateDisplay s)) =
       length (objects s) + length (getSelectedObjects s)
   \<and> take (length (objects s)) (objects (onDuplicateDisplay s)) = objects s
   \<and> rows (onDuplicateDisplay s) =
       rows s @ map DisplayRow
         [length (objects s) ..< length (objects s) + length (getSelectedObjects s)]
   \<and> (\<forall>k < length (getSelectedObjects s).
         getSelectedObjects s ! k < length (objects s)
       \<and> length (objects s) + k \<noteq> getSelectedObjects s ! k
       \<and> class_id (objects (onDuplicateDisplay s) ! (length (objects s) + k)) =
           class_id (objects s ! (getSelectedObjects s ! k))
       \<and> name (objects (onDuplicateDisplay s) ! (length (objects s) + k)) =
           name (objects s ! (getSelectedObjects s ! k))
       \<and> configuration (objects (onDuplicateDisplay s) ! (length (objects s) + k)) =
           configuration (objects s ! (getSelectedObjects s ! k))
       \<and> (\<exists>pre post. emitted s (onDuplicateDisplay s) =
             pre @ [CreateDisplay (class_id (objects s ! (getSelectedObjects s ! k)))
                      (name (objects s ! (getSelectedObjects s ! k))) True,
                    Save (getSelectedObjects s ! k),
                    Load (length (objects s) + k)
                      (configuration (objects s ! (getSelectedObjects s ! k)))] @ post))
   \<and> selection (onDuplicateDisplay s) =
       (if getSelectedObjects s = [] then selection s
        else [length (rows s) ..< length (rows s) + length (getSelectedObjects s)])"
proof (intro impI conjI allI)
  let ?ds = "getSelectedObjects s"
  let ?n = "length (objects s)"
  assume wf: "rows_valid s"
  show "length (objects (onDuplicateDisplay s)) = ?n + length ?ds"
    by (simp add: onDuplicateDisplay_fields)
  show "take ?n (objects (onDuplicateDisplay s)) = objects s"
    by (simp add: onDuplicateDisplay_fields)
  show "rows (onDuplicateDisplay s) = rows s @ map DisplayRow [?n ..< ?n + length ?ds]"
    by (simp add: onDuplicateDisplay_fields)
  show "selection (onDuplicateDisplay s) =
       (if ?ds = [] then selection s else [length (rows s) ..< length (rows s) + length ?ds])"
    by (rule onDuplicateDisplay_selection(1) [OF wf])
  fix k
  assume k: "k < length ?ds"
  then show live: "?ds ! k < ?n"
    using getSelectedObjects_live [of "?ds ! k" s] by simp
  then show "?n + k \<noteq> ?ds ! k" by simp
  have new: "objects (onDuplicateDisplay s) ! (?n + k) = duplicate_of (objects s ! (?ds ! k))"
    using k by (simp add: onDuplicateDisplay_fields nth_append)
  show "class_id (objects (onDuplicateDisplay s) ! (?n + k)) = class_id (objects s ! (?ds ! k))"
    "name (objects (onDuplicateDisplay s) ! (?n + k)) = name (objects s ! (?ds ! k))"
    "configuration (objects (onDuplicateDisplay s) ! (?n + k)) =
       configuration (objects s ! (?ds ! k))"
    unfolding new by (simp_all add: duplicate_of_def DisplayFactory_make_def)
  let ?z = "zip [?n ..< ?n + length ?ds] ?ds"
  have kz: "k < length ?z" and zk: "?z ! k = (?n + k, ?ds ! k)"
    using k by simp_all
  have "emitted s (onDuplicateDisplay s) =
      concat (map (duplicate_events (objects s)) (take k ?z)) @
      duplicate_events (objects s) (?n + k, ?ds ! k) @
      (concat (map (duplicate_events (objects s)) (drop (Suc k) ?z)) @
       (if ?ds = [] then []
        else [Select (Some (length (rows s))) (Some (length (rows s) + (length ?ds - 1)))]) @
       [StartUpdate, ActivateWindow])"
    unfolding onDuplicateDisplay_selection(2) [OF wf]
    using concat_map_nth [OF kz, of "duplicate_events (objects s)"] zk
    by (simp del: upt_Suc)
  then show "\<exists>pre post. emitted s (onDuplicateDisplay s) =
      pre @ [CreateDisplay (class_id (objects s ! (?ds ! k))) (name (objects s ! (?ds ! k))) True,
             Save (?ds ! k), Load (?n + k) (configuration (objects s ! (?ds ! k)))] @ post"
    unfolding duplicate_events_def by (simp del: upt_Suc) blast
qed

theorem onDuplicateDisplay_copies_witness:
  "rows_valid (user_selects [3, 4] three_displays)
   \<and> getSelectedObjects (user_selects [3, 4] three_displays) = [1, 2]
   \<and> length (objects (onDuplicateDisplay (user_selects [3, 4] three_displays))) = 5
   \<and> class_id (objects (onDuplicateDisplay (user_selects [3, 4] three_displays)) ! 3) = ''rviz/Camera''
   \<and> name (objects (onDuplicateDisplay (user_selects [3, 4] three_displays)) ! 3) = ''Camera''
   \<and> class_id (objects (onDuplicateDisplay (user_selects [3, 4] three_displays)) ! 4) = ''rviz/Group''
   \<and> name (objects (onDuplicateDisplay (user_selects [3, 4] three_displays)) ! 4) = ''Group''
   \<and> rows (onDuplicateDisplay (user_selects [3, 4] three_displays)) =
       rows three_displays @ [DisplayRow 3, DisplayRow 4]
   \<and> selection (onDuplicateDisplay (user_selects [3, 4] three_displays)) = [5, 6]"
proof -
  let ?s = "user_selects [3, 4] three_displays"
  note c = onDuplicateDisplay_copies [of ?s, THEN mp, OF three_displays_rows_valid]
  note each = c [THEN conjunct2, THEN conjunct2, THEN conjunct2, THEN conjunct1, rule_format]
  show ?thesis
    using c [THEN conjunct1] c [THEN conjunct2, THEN conjunct2, THEN conjunct1]
      c [THEN conjunct2, THEN conjunct2, THEN conjunct2, THEN conjunct2]
      each [of 0] each [of 1] three_displays_rows_valid [of "[3, 4]"]
    by (simp add: three_displays_selected three_displays_fields) (simp add: eval_nat_numeral)
qed

subsection \<open>Pausing and resuming the update loop\<close>

text \<open>
  Claim C2. Every resume of the update loop that a lifecycle operation issues has a pause
  before it in the same operation, and no operation returns with the loop paused. Add,
  delete, rename, save-group and load-group keep to this (\<open>other_slots_balanced\<close>). The
  duplicate slot does not: it calls \<open>startUpdate\<close> at its end (line 189) and never calls
  \<open>stopUpdate\<close>. Duplicating the first display of the example panel issues the calls
  below, a resume with no pause before it.
\<close>

theorem onDuplicateDisplay_resumes_without_pause:
  "emitted (user_selects [2] three_displays) (onDuplicateDisplay (user_selects [2] three_displays)) =
     [CreateDisplay ''rviz/Grid'' ''Grid'' True, Save 0, Load 3 Config,
      Select (Some 5) (Some 5), StartUpdate, ActivateWindow]
   \<and> \<not> balanced (emitted (user_selects [2] three_displays)
                    (onDuplicateDisplay (user_selects [2] three_displays)))"
  by (simp add: onDuplicateDisplay_selection(2) [OF three_displays_rows_valid]
        three_displays_selected three_displays_fields duplicate_events_def balanced_def)

subsection \<open>Affordances\<close>

text \<open>
  Claim C4. The flags agree with the (empty) selection of a freshly constructed panel.
  After a selection-change notification the four flags are functions of the selection: Duplicate and Remove are enabled exactly when at least one display is
  selected, Rename exactly when one display is selected, and Save Group exactly when one
  display is selected and it is a group. On a well-formed panel on which the flags agree
  with the selection, they still agree after each of add, duplicate, delete, rename,
  save-group and load-group; \<open>slots_keep_wellformed\<close> shows that these operations keep
  the panel well-formed, so the agreement holds along any sequence of them.
\<close>

theorem affordances_follow_selection:
  "affordances_ok (DisplaysPanel objs rws)
   \<and> affordances_ok (onSelectionChanged s)
   \<and> (rows_valid s \<and> selection_valid s \<and> affordances_ok s \<longrightarrow>
        affordances_ok (onNewDisplay dialog s)
      \<and> affordances_ok (onDuplicateDisplay s)
      \<and> affordances_ok (onDeleteDisplay s)
      \<and> affordances_ok (onRenameDisplay new_name s)
      \<and> affordances_ok (onSaveGroupDisplay writer save_filename s)
      \<and> affordances_ok (onLoadGroupDisplay exists reader filename s))"
  by (simp add: DisplaysPanel_ok onSelectionChanged_ok onNewDisplay_ok onDuplicateDisplay_ok
        onDeleteDisplay_ok onRenameDisplay_ok onSaveGroupDisplay_ok onLoadGroupDisplay_ok)

theorem affordances_follow_selection_witness:
  "rows_valid (user_selects [4] three_displays)
   \<and> selection_valid (user_selects [4] three_displays)
   \<and> affordances_ok (user_selects [4] three_displays)
   \<and> save_group_button (user_selects [4] three_displays)
   \<and> affordances_ok (onDeleteDisplay (user_selects [4] three_displays))
   \<and> getSelectedObjects (onDeleteDisplay (user_selects [4] three_displays)) = [1]
   \<and> rename_button (onDeleteDisplay (user_selects [4] three_displays))
   \<and> \<not> save_group_button (onDeleteDisplay (user_selects [4] three_displays))"
proof -
  let ?s = "user_selects [4] three_displays"
  have ok: "affordances_ok ?s"
    using affordances_follow_selection [where s = "three_displays\<lparr>selection := [4]\<rparr>"]
    by (simp add: user_selects_def)
  then have grp: "save_group_button ?s"
    by (simp add: affordances_ok_def three_displays_selected three_displays_fields)
  have wf: "rows_valid ?s" "selection_valid ?s"
    by (simp_all add: three_displays_rows_valid three_displays_selection_valid)
  with ok have ok': "affordances_ok (onDeleteDisplay ?s)"
    using affordances_follow_selection [where s = ?s] by simp
  then have "rename_button (onDeleteDisplay ?s)" "\<not> save_group_button (onDeleteDisplay ?s)"
    by (simp_all add: affordances_ok_def three_displays_after_delete)
  with ok grp wf ok' show ?thesis
    by (simp add: three_displays_after_delete)
qed

end
